theory Spec2Isabelle
  imports Main "HOL-Library.Word" "HOL-Library.AList"
begin

unbundle bit_operations_syntax

section \<open>Data model\<close>

text \<open>
  A shallow embedding of the connection pool (\<^verbatim>\<open>ConnPool\<close>), the fallback send protocol
  (\<^verbatim>\<open>sendDatagram\<close>, \<^verbatim>\<open>sendViaStream\<close>), the unidirectional-stream handler
  (\<^verbatim>\<open>handleUniStream\<close>) and \<^verbatim>\<open>DialAddressTimeout\<close> of memberlist-quic.

  Bytes are 8-bit words, the frame length is a 32-bit word. \<^verbatim>\<open>time.Time\<close> is a count of
  nanoseconds and \<^verbatim>\<open>time.Duration\<close> a signed count of nanoseconds. A \<^verbatim>\<open>*quic.Conn\<close> and a
  \<^verbatim>\<open>*poolEntry\<close> are pointers: natural numbers, compared by identity; a nil pointer is
  \<open>None\<close>.
\<close>

type_synonym byte = "8 word"
type_synonym uint32 = "32 word"
type_synonym time = int
type_synonym duration = int

text \<open>
  Errors as values. \<^verbatim>\<open>*quic.DatagramTooLargeError\<close> carries the maximum payload size;
  \<open>Wrapped\<close> is an error that wraps another one (\<^verbatim>\<open>%w\<close>), which \<^verbatim>\<open>errors.As\<close> looks
  through.
\<close>

datatype qerr = DatagramTooLargeError int | Err string | Wrapped string qerr

fun errors_As_tooLarge :: "qerr \<Rightarrow> bool" where
  "errors_As_tooLarge (DatagramTooLargeError n) = True"
| "errors_As_tooLarge (Err m) = False"
| "errors_As_tooLarge (Wrapped m e) = errors_As_tooLarge e"

record poolEntry =
  mu :: bool
  conn :: "nat option"
  createdAt :: time

record udpaddr =
  udp_ip :: string
  udp_port :: nat

text \<open>
  A \<^verbatim>\<open>context.Context\<close>: its deadline, if it has one, and whether it is done.
\<close>

record ctx =
  ctx_deadline :: "time option"
  ctx_done :: bool

record dial_call =
  dial_ctx :: ctx
  dial_addr :: udpaddr
  dial_serverName :: string

text \<open>
  The pool and the part of the world it acts on. \<open>entries\<close> is the \<^verbatim>\<open>sync.Map\<close> from
  address to \<^verbatim>\<open>*poolEntry\<close>, in the order \<^verbatim>\<open>Range\<close> visits it; \<open>heap\<close> holds the entry
  objects and \<open>nextEntry\<close> is the next pointer \<^verbatim>\<open>&poolEntry{}\<close> returns. \<open>cancelled\<close> are
  the connections whose \<^verbatim>\<open>Context().Err()\<close> is not nil. \<open>closeLog\<close>, \<open>dialLog\<close> and
  \<open>handlerLog\<close> record the calls of \<^verbatim>\<open>CloseWithError\<close>, \<^verbatim>\<open>transport.Dial\<close> and
  \<^verbatim>\<open>onNewConn\<close>. \<open>clock\<close> is what \<^verbatim>\<open>time.Now()\<close> returns.
\<close>

record pool_state =
  entries :: "(string \<times> nat) list"
  heap :: "nat \<Rightarrow> poolEntry"
  nextEntry :: nat
  hasOnNewConn :: bool
  maxAge :: duration
  cancelled :: "nat set"
  closeLog :: "(nat \<times> string) list"
  dialLog :: "dial_call list"
  handlerLog :: "nat list"
  clock :: time

text \<open>
  The collaborators outside the repository: address resolution, the QUIC transport's
  dial (given the number of earlier dials; it returns the nanoseconds it took and its
  result), the addresses of a connection, and \<^verbatim>\<open>conn.OpenStream\<close> (given the connection;
  it returns the new stream).
\<close>

record env =
  resolveUDPAddr :: "string \<Rightarrow> qerr + udpaddr"
  transportDial :: "nat \<Rightarrow> dial_call \<Rightarrow> nat \<times> (qerr + nat)"
  connRemoteAddr :: "nat \<Rightarrow> string"
  connLocalAddr :: "nat \<Rightarrow> string"
  connOpenStream :: "nat \<Rightarrow> qerr + nat"

section \<open>Connection pool\<close>

definition setConn :: "nat \<Rightarrow> nat \<Rightarrow> pool_state \<Rightarrow> pool_state" where
  "setConn e c s = s\<lparr>heap := (heap s)(e := (heap s e)\<lparr>conn := Some c, createdAt := clock s\<rparr>)\<rparr>"

text \<open>\<^verbatim>\<open>&poolEntry{}\<close>: a fresh entry with a free mutex, no connection and the zero time.\<close>

definition newPoolEntry :: "pool_state \<Rightarrow> nat \<times> pool_state" where
  "newPoolEntry s =
     (nextEntry s,
      s\<lparr>heap := (heap s)(nextEntry s := \<lparr>mu = False, conn = None, createdAt = 0\<rparr>),
        nextEntry := Suc (nextEntry s)\<rparr>)"

definition ctxErr :: "pool_state \<Rightarrow> nat \<Rightarrow> bool" where
  "ctxErr s c = (c \<in> cancelled s)"

definition getAliveConn :: "pool_state \<Rightarrow> poolEntry \<Rightarrow> nat option" where
  "getAliveConn s entry =
     (case conn entry of
        None \<Rightarrow> None
      | Some c \<Rightarrow> if \<not> ctxErr s c then Some c else None)"

text \<open>
  \<^verbatim>\<open>CloseWithError\<close> closes the session: the call is recorded and the connection's context
  is cancelled.
\<close>

definition CloseWithError :: "nat \<Rightarrow> string \<Rightarrow> pool_state \<Rightarrow> pool_state" where
  "CloseWithError c reason s =
     s\<lparr>closeLog := closeLog s @ [(c, reason)], cancelled := insert c (cancelled s)\<rparr>"

definition LoadOrStore :: "string \<Rightarrow> nat \<Rightarrow> (string \<times> nat) list \<Rightarrow> nat \<times> bool \<times> (string \<times> nat) list" where
  "LoadOrStore k v m =
     (case map_of m k of
        Some v' \<Rightarrow> (v', True, m)
      | None \<Rightarrow> (v, False, AList.update k v m))"

text \<open>
  The operations below are one goroutine running alone: each \<^verbatim>\<open>Lock\<close> is followed by its
  \<^verbatim>\<open>Unlock\<close> before the operation returns, so \<open>mu\<close> is left as it was. The interleaved
  steps of concurrent callers are modelled separately (section on concurrent callers).
\<close>

definition GetConnection :: "string \<Rightarrow> pool_state \<Rightarrow> nat option \<times> pool_state" where
  "GetConnection addr s =
     (case map_of (entries s) addr of
        None \<Rightarrow> (None, s)
      | Some entry \<Rightarrow>
          (case getAliveConn s (heap s entry) of
             None \<Rightarrow> (None, s\<lparr>entries := AList.delete addr (entries s)\<rparr>)
           | Some c \<Rightarrow> (Some c, s)))"

definition dial :: "env \<Rightarrow> ctx \<Rightarrow> udpaddr \<Rightarrow> pool_state \<Rightarrow> (qerr + nat) \<times> pool_state" where
  "dial ev cx udp s =
     (let call = \<lparr>dial_ctx = cx, dial_addr = udp, dial_serverName = udp_ip udp\<rparr>;
          (elapsed, r) = transportDial ev (length (dialLog s)) call
      in (r, s\<lparr>dialLog := dialLog s @ [call], clock := clock s + int elapsed\<rparr>))"

definition onNewConn :: "nat \<Rightarrow> pool_state \<Rightarrow> pool_state" where
  "onNewConn c s = (if hasOnNewConn s then s\<lparr>handlerLog := handlerLog s @ [c]\<rparr> else s)"

definition GetOrDial :: "env \<Rightarrow> ctx \<Rightarrow> string \<Rightarrow> pool_state \<Rightarrow> (qerr + nat) \<times> pool_state" where
  "GetOrDial ev cx addr s =
     (case GetConnection addr s of
        (Some c, s1) \<Rightarrow> (Inr c, s1)
      | (None, s1) \<Rightarrow>
          (let (newEntry, s2) = newPoolEntry s1;
               (entry, loaded, m) = LoadOrStore addr newEntry (entries s2);
               s3 = s2\<lparr>entries := m\<rparr>
           in case getAliveConn s3 (heap s3 entry) of
                Some c \<Rightarrow> (Inr c, s3)
              | None \<Rightarrow>
                  (case resolveUDPAddr ev addr of
                     Inl err \<Rightarrow> (Inl err, s3)
                   | Inr udp \<Rightarrow>
                       (case dial ev cx udp s3 of
                          (Inl err, s4) \<Rightarrow> (Inl err, s4)
                        | (Inr c, s4) \<Rightarrow> (Inr c, onNewConn c (setConn entry c s4))))))"

definition CloseConnection :: "string \<Rightarrow> pool_state \<Rightarrow> pool_state" where
  "CloseConnection addr s =
     (case map_of (entries s) addr of
        None \<Rightarrow> s
      | Some entry \<Rightarrow>
          (let s1 = s\<lparr>entries := AList.delete addr (entries s)\<rparr>
           in case conn (heap s1 entry) of
                Some c \<Rightarrow> CloseWithError c ''connection closed'' s1
              | None \<Rightarrow> s1))"

definition AddInbound :: "env \<Rightarrow> nat \<Rightarrow> pool_state \<Rightarrow> pool_state" where
  "AddInbound ev c s =
     (let addr = connRemoteAddr ev c;
          (entry, s1) = newPoolEntry s;
          s2 = setConn entry c s1;
          (existing, loaded, m) = LoadOrStore addr entry (entries s2);
          s3 = s2\<lparr>entries := m\<rparr>
      in if \<not> loaded then s3
         else if getAliveConn s3 (heap s3 existing) = None then setConn existing c s3
         else s3)"

text \<open>
  \<^verbatim>\<open>now.Sub(createdAt)\<close>: the difference, saturated to the range of a 64-bit duration.
\<close>

definition Time_Sub :: "time \<Rightarrow> time \<Rightarrow> duration" where
  "Time_Sub t u = max (- (2 ^ 63)) (min (2 ^ 63 - 1) (t - u))"

definition sweep_entry :: "time \<Rightarrow> string \<times> nat \<Rightarrow> pool_state \<Rightarrow> pool_state" where
  "sweep_entry now kv s =
     (let key = fst kv; entry = heap s (snd kv)
      in case conn entry of
           None \<Rightarrow> s\<lparr>entries := AList.delete key (entries s)\<rparr>
         | Some c \<Rightarrow>
             if ctxErr s c then s\<lparr>entries := AList.delete key (entries s)\<rparr>
             else if maxAge s > 0 \<and> Time_Sub now (createdAt entry) > maxAge s then
               (let s1 = CloseWithError c ''max connection age exceeded'' s
                in s1\<lparr>entries := AList.delete key (entries s1)\<rparr>)
             else s)"

definition sweep :: "pool_state \<Rightarrow> pool_state" where
  "sweep s = fold (sweep_entry (clock s)) (entries s) s"

section \<open>Fallback send protocol\<close>

text \<open>
  What the send path does to a \<^verbatim>\<open>*quic.Conn\<close>, in order, and how the connection answers:
  whether the peer supports datagrams, the result of \<^verbatim>\<open>SendDatagram\<close> on a payload, of
  \<^verbatim>\<open>OpenUniStream\<close>, and of the k-th \<^verbatim>\<open>Write\<close> on the opened stream (\<open>None\<close> is a nil
  error; a \<^verbatim>\<open>Write\<close> that returns nil has written all its bytes).
\<close>

datatype io_event =
  EvSendDatagram "byte list" | EvOpenUniStream | EvWrite "byte list" | EvClose

record quic_conn =
  SupportsDatagramsRemote :: bool
  SendDatagram_result :: "byte list \<Rightarrow> qerr option"
  OpenUniStream_result :: "qerr option"
  Write_result :: "nat \<Rightarrow> byte list \<Rightarrow> qerr option"

text \<open>\<^verbatim>\<open>binary.BigEndian.PutUint32\<close> and \<^verbatim>\<open>binary.BigEndian.Uint32\<close> on a 4-byte array.\<close>

definition PutUint32 :: "uint32 \<Rightarrow> byte list" where
  "PutUint32 v = [ucast (drop_bit 24 v), ucast (drop_bit 16 v), ucast (drop_bit 8 v), ucast v]"

definition Uint32 :: "byte list \<Rightarrow> uint32" where
  "Uint32 b = ucast (b ! 3) OR push_bit 8 (ucast (b ! 2)) OR push_bit 16 (ucast (b ! 1))
                OR push_bit 24 (ucast (b ! 0))"

text \<open>
  \<^verbatim>\<open>uint32(len(payload))\<close> keeps the low 32 bits of the length. The result is the returned
  error and the calls made; \<^verbatim>\<open>stream.Close()\<close> is deferred, so it runs on every return
  after the stream was opened.
\<close>

definition sendViaStream :: "quic_conn \<Rightarrow> byte list \<Rightarrow> qerr option \<times> io_event list" where
  "sendViaStream cn payload =
     (case OpenUniStream_result cn of
        Some err \<Rightarrow> (Some err, [EvOpenUniStream])
      | None \<Rightarrow>
          (let hdr = PutUint32 (word_of_nat (length payload))
           in case Write_result cn 0 hdr of
                Some err \<Rightarrow> (Some err, [EvOpenUniStream, EvWrite hdr, EvClose])
              | None \<Rightarrow>
                  (Write_result cn 1 payload,
                   [EvOpenUniStream, EvWrite hdr, EvWrite payload, EvClose])))"

definition sendDatagram :: "quic_conn \<Rightarrow> time \<Rightarrow> byte list \<Rightarrow> (time \<times> qerr option) \<times> io_event list" where
  "sendDatagram cn now payload =
     (if \<not> SupportsDatagramsRemote cn then
        (let (err, evs) = sendViaStream cn payload in ((now, err), evs))
      else
        (case SendDatagram_result cn payload of
           Some err \<Rightarrow>
             if errors_As_tooLarge err then
               (let (err', evs) = sendViaStream cn payload
                in ((now, err'), EvSendDatagram payload # evs))
             else ((now, Some err), [EvSendDatagram payload])
         | None \<Rightarrow> ((now, None), [EvSendDatagram payload])))"

text \<open>The bytes a sequence of calls puts on the stream when every write succeeds.\<close>

fun written :: "io_event list \<Rightarrow> byte list" where
  "written [] = []"
| "written (EvWrite b # evs) = b @ written evs"
| "written (ev # evs) = written evs"

section \<open>Accept dispatcher\<close>

record packet =
  Buf :: "byte list"
  From :: string
  Timestamp :: time

record quicStreamConn =
  stream :: nat
  localAddr :: string
  remoteAddr :: string

text \<open>
  The transport: its pool, the bounded packet queue with its capacity, whether the
  shutdown channel is closed, and the deadline set on each stream.
\<close>

record transport =
  pool :: pool_state
  packetCh :: "packet list"
  packetCap :: nat
  shutdownClosed :: bool
  streamDeadline :: "nat \<Rightarrow> time option"

text \<open>
  \<^verbatim>\<open>io.ReadFull\<close> on a receive stream whose remaining bytes (up to its end) are \<open>data\<close>:
  the first \<open>n\<close> bytes and the rest, or an error when fewer than \<open>n\<close> arrive.
\<close>

definition ReadFull :: "nat \<Rightarrow> byte list \<Rightarrow> (byte list \<times> byte list) option" where
  "ReadFull n data = (if n \<le> length data then Some (take n data, drop n data) else None)"

text \<open>
  The \<^verbatim>\<open>select\<close> between sending on \<^verbatim>\<open>packetCh\<close> and receiving from \<^verbatim>\<open>shutdownCh\<close>. When
  both cases are ready the runtime picks one (\<open>pick\<close>: the send); when neither is, the
  goroutine stays blocked (\<open>None\<close>).
\<close>

definition select_packetCh :: "bool \<Rightarrow> packet \<Rightarrow> transport \<Rightarrow> transport option" where
  "select_packetCh pick pkt t =
     (let room = length (packetCh t) < packetCap t;
          sent = t\<lparr>packetCh := packetCh t @ [pkt]\<rparr>
      in if room \<and> shutdownClosed t then Some (if pick then sent else t)
         else if room then Some sent
         else if shutdownClosed t then Some t
         else None)"

text \<open>
  The deferred \<^verbatim>\<open>stream.CancelRead(0)\<close> runs on every return and changes nothing modelled
  here.
\<close>

definition handleUniStream :: "bool \<Rightarrow> byte list \<Rightarrow> string \<Rightarrow> transport \<Rightarrow> transport option" where
  "handleUniStream pick data remote t =
     (case ReadFull 4 data of
        None \<Rightarrow> Some t
      | Some (hdr, rest) \<Rightarrow>
          (let size = Uint32 hdr
           in if size > 65536 then Some t
              else case ReadFull (unat size) rest of
                     None \<Rightarrow> Some t
                   | Some (buf, rest') \<Rightarrow>
                       select_packetCh pick
                         \<lparr>Buf = buf, From = remote, Timestamp = clock (pool t)\<rparr> t))"

section \<open>Transport orchestrator\<close>

text \<open>\<^verbatim>\<open>shutdownContext\<close>: no deadline, done when the shutdown channel is closed.\<close>

definition dialContext :: "transport \<Rightarrow> ctx" where
  "dialContext t = \<lparr>ctx_deadline = None, ctx_done = shutdownClosed t\<rparr>"

definition SetDeadline :: "quicStreamConn \<Rightarrow> time \<Rightarrow> transport \<Rightarrow> transport" where
  "SetDeadline sc d t = t\<lparr>streamDeadline := (streamDeadline t)(stream sc \<mapsto> d)\<rparr>"

definition DialAddressTimeout ::
  "env \<Rightarrow> string \<Rightarrow> duration \<Rightarrow> transport \<Rightarrow> (qerr + quicStreamConn) \<times> transport" where
  "DialAddressTimeout ev addr timeout t =
     (case GetOrDial ev (dialContext t) addr (pool t) of
        (Inl err, p) \<Rightarrow> (Inl err, t\<lparr>pool := p\<rparr>)
      | (Inr c, p) \<Rightarrow>
          (let t1 = t\<lparr>pool := p\<rparr>
           in case connOpenStream ev c of
                Inl err \<Rightarrow> (Inl err, t1)
              | Inr st \<Rightarrow>
                  (let sc = \<lparr>stream = st, localAddr = connLocalAddr ev c,
                              remoteAddr = connRemoteAddr ev c\<rparr>
                   in if timeout > 0 then (Inr sc, SetDeadline sc (clock (pool t1) + timeout) t1)
                      else (Inr sc, t1))))"

section \<open>Concurrent callers of GetOrDial\<close>

text \<open>
  Goroutines calling \<^verbatim>\<open>GetOrDial\<close> with one address, interleaved. A step is one atomic
  action on shared state: an operation of the \<^verbatim>\<open>sync.Map\<close>, a \<^verbatim>\<open>Lock\<close>, or a stretch of code
  run while holding the entry's mutex. The program counter names the next action and
  holds the goroutine's local \<^verbatim>\<open>entry\<close> pointer:
  \<^item> \<open>GC_Load\<close>, \<open>GC_Lock\<close>, \<open>GC_Alive\<close>, \<open>GC_Delete\<close>: inside \<^verbatim>\<open>GetConnection\<close>, before
    \<^verbatim>\<open>Load\<close>, before \<^verbatim>\<open>entry.mu.Lock()\<close>, before \<^verbatim>\<open>getAliveConn\<close> and \<^verbatim>\<open>Unlock\<close>, before
    \<^verbatim>\<open>Delete\<close>;
  \<^item> \<open>GD_LoadOrStore\<close>, \<open>GD_Lock\<close>, \<open>GD_Check\<close>, \<open>GD_Resolve\<close>, \<open>GD_Dial\<close>: in \<^verbatim>\<open>GetOrDial\<close>,
    before \<^verbatim>\<open>LoadOrStore\<close>, before \<^verbatim>\<open>entry.mu.Lock()\<close>, before the check under the lock,
    before \<^verbatim>\<open>ResolveUDPAddr\<close>, before \<^verbatim>\<open>transport.Dial\<close>;
  \<^item> \<open>Returned r\<close>: the call has returned \<open>r\<close> (the deferred \<^verbatim>\<open>Unlock\<close> has run).
\<close>

datatype pc =
  GC_Load | GC_Lock nat | GC_Alive nat | GC_Delete
| GD_LoadOrStore | GD_Lock nat | GD_Check nat | GD_Resolve nat | GD_Dial nat udpaddr
| Returned "qerr + nat"

definition Lock :: "nat \<Rightarrow> pool_state \<Rightarrow> pool_state" where
  "Lock e s = s\<lparr>heap := (heap s)(e := (heap s e)\<lparr>mu := True\<rparr>)\<rparr>"

definition Unlock :: "nat \<Rightarrow> pool_state \<Rightarrow> pool_state" where
  "Unlock e s = s\<lparr>heap := (heap s)(e := (heap s e)\<lparr>mu := False\<rparr>)\<rparr>"

text \<open>One step of one goroutine; \<open>None\<close> when it cannot move (blocked on a held mutex, or returned).\<close>

fun step_thread :: "env \<Rightarrow> ctx \<Rightarrow> string \<Rightarrow> pc \<Rightarrow> pool_state \<Rightarrow> (pc \<times> pool_state) option" where
  "step_thread ev cx addr GC_Load s =
     (case map_of (entries s) addr of
        None \<Rightarrow> Some (GD_LoadOrStore, s)
      | Some entry \<Rightarrow> Some (GC_Lock entry, s))"
| "step_thread ev cx addr (GC_Lock entry) s =
     (if mu (heap s entry) then None else Some (GC_Alive entry, Lock entry s))"
| "step_thread ev cx addr (GC_Alive entry) s =
     (case getAliveConn s (heap s entry) of
        None \<Rightarrow> Some (GC_Delete, Unlock entry s)
      | Some c \<Rightarrow> Some (Returned (Inr c), Unlock entry s))"
| "step_thread ev cx addr GC_Delete s =
     Some (GD_LoadOrStore, s\<lparr>entries := AList.delete addr (entries s)\<rparr>)"
| "step_thread ev cx addr GD_LoadOrStore s =
     (let (newEntry, s2) = newPoolEntry s;
          (entry, loaded, m) = LoadOrStore addr newEntry (entries s2)
      in Some (GD_Lock entry, s2\<lparr>entries := m\<rparr>))"
| "step_thread ev cx addr (GD_Lock entry) s =
     (if mu (heap s entry) then None else Some (GD_Check entry, Lock entry s))"
| "step_thread ev cx addr (GD_Check entry) s =
     (case getAliveConn s (heap s entry) of
        Some c \<Rightarrow> Some (Returned (Inr c), Unlock entry s)
      | None \<Rightarrow> Some (GD_Resolve entry, s))"
| "step_thread ev cx addr (GD_Resolve entry) s =
     (case resolveUDPAddr ev addr of
        Inl err \<Rightarrow> Some (Returned (Inl err), Unlock entry s)
      | Inr udp \<Rightarrow> Some (GD_Dial entry udp, s))"
| "step_thread ev cx addr (GD_Dial entry udp) s =
     (case dial ev cx udp s of
        (Inl err, s4) \<Rightarrow> Some (Returned (Inl err), Unlock entry s4)
      | (Inr c, s4) \<Rightarrow> Some (Returned (Inr c), Unlock entry (onNewConn c (setConn entry c s4))))"
| "step_thread ev cx addr (Returned r) s = None"

record cstate =
  shared :: pool_state
  threads :: "pc list"

definition step :: "env \<Rightarrow> ctx \<Rightarrow> string \<Rightarrow> nat \<Rightarrow> cstate \<Rightarrow> cstate option" where
  "step ev cx addr i cs =
     (if i < length (threads cs) then
        (case step_thread ev cx addr (threads cs ! i) (shared cs) of
           None \<Rightarrow> None
         | Some (p, s) \<Rightarrow> Some \<lparr>shared = s, threads = (threads cs)[i := p]\<rparr>)
      else None)"

text \<open>A schedule names the goroutine that moves at each step.\<close>

fun run :: "env \<Rightarrow> ctx \<Rightarrow> string \<Rightarrow> nat list \<Rightarrow> cstate \<Rightarrow> cstate option" where
  "run ev cx addr [] cs = Some cs"
| "run ev cx addr (i # sched) cs =
     (case step ev cx addr i cs of
        None \<Rightarrow> None
      | Some cs' \<Rightarrow> run ev cx addr sched cs')"

text \<open>\<open>n\<close> callers about to enter \<^verbatim>\<open>GetOrDial\<close> on the pool \<open>s\<close>.\<close>

definition callers :: "nat \<Rightarrow> pool_state \<Rightarrow> cstate" where
  "callers n s = \<lparr>shared = s, threads = replicate n GC_Load\<rparr>"

section \<open>Properties of pool states\<close>

text \<open>
  What the pool holds for an address: \<open>None\<close> when the map has no entry, \<open>Some None\<close>
  when the entry's connection is nil, \<open>Some (Some c)\<close> when it is \<open>c\<close>.
\<close>

definition lookupConn :: "pool_state \<Rightarrow> string \<Rightarrow> nat option option" where
  "lookupConn s addr = map_option (\<lambda>e. conn (heap s e)) (map_of (entries s) addr)"

text \<open>
  A well-formed pool: the keys of the \<^verbatim>\<open>sync.Map\<close> are unique, and every entry pointer it
  holds has been allocated.
\<close>

definition wf_pool :: "pool_state \<Rightarrow> bool" where
  "wf_pool s = (distinct (map fst (entries s)) \<and> (\<forall>kv \<in> set (entries s). snd kv < nextEntry s))"

text \<open>
  Every entry present in the map holds a non-nil connection.
\<close>

definition no_empty_entry :: "pool_state \<Rightarrow> bool" where
  "no_empty_entry s = (\<forall>kv \<in> set (entries s). conn (heap s (snd kv)) \<noteq> None)"

text \<open>
  No session is referenced by two entries of the map.
\<close>

definition conns_unshared :: "pool_state \<Rightarrow> bool" where
  "conns_unshared s =
     (\<forall>kv \<in> set (entries s). \<forall>kv' \<in> set (entries s).
        fst kv \<noteq> fst kv' \<longrightarrow>
        conn (heap s (snd kv)) = None \<or> conn (heap s (snd kv)) \<noteq> conn (heap s (snd kv')))"

text \<open>
  An entry that one sweep pass started at \<open>now\<close> removes: its connection is nil, its
  session reports an error, or age eviction is on and the entry is older than \<open>maxAge\<close>.
\<close>

definition doomed :: "time \<Rightarrow> pool_state \<Rightarrow> nat \<Rightarrow> bool" where
  "doomed now s e =
     (case conn (heap s e) of
        None \<Rightarrow> True
      | Some c \<Rightarrow> c \<in> cancelled s
                 \<or> (0 < maxAge s \<and> maxAge s < Time_Sub now (createdAt (heap s e))))"

section \<open>Example connections, pools and schedules\<close>

text \<open>
  Concrete connections, environments and pool states on which the theorems below are
  evaluated: a connection on which every call succeeds (\<open>conn_ok\<close>), one whose peer
  does not support datagrams, one that answers a datagram with
  \<^verbatim>\<open>DatagramTooLargeError\<close>, one that answers with another error; the empty pool; an
  environment in which resolution and dial succeed (the n-th dial returns connection
  \<open>n\<close>), one whose resolution fails, one whose dial fails, one whose connections come
  from another peer; a pool with one live entry created at time 0 and read at time 100,
  variants of it, and the pool a failed \<^verbatim>\<open>GetOrDial\<close> leaves; the transport with an
  empty queue, and the same with the shutdown channel closed, with a full queue, and with
  both.
\<close>

definition conn_ok :: quic_conn where
  "conn_ok = \<lparr>SupportsDatagramsRemote = True, SendDatagram_result = (\<lambda>b. None),
             OpenUniStream_result = None, Write_result = (\<lambda>k b. None)\<rparr>"

definition conn_nodgram :: quic_conn where
  "conn_nodgram = conn_ok\<lparr>SupportsDatagramsRemote := False\<rparr>"

definition conn_toolarge :: quic_conn where
  "conn_toolarge = conn_ok\<lparr>SendDatagram_result := (\<lambda>b. Some (DatagramTooLargeError 1200))\<rparr>"

definition conn_broken :: quic_conn where
  "conn_broken = conn_ok\<lparr>SendDatagram_result := (\<lambda>b. Some (Err ''connection closed''))\<rparr>"

definition pool0 :: pool_state where
  "pool0 = \<lparr>entries = [], heap = (\<lambda>e. \<lparr>mu = False, conn = None, createdAt = 0\<rparr>),
            nextEntry = 0, hasOnNewConn = True, maxAge = 0, cancelled = {}, closeLog = [],
            dialLog = [], handlerLog = [], clock = 0\<rparr>"

definition transport0 :: transport where
  "transport0 = \<lparr>pool = pool0, packetCh = [], packetCap = 256, shutdownClosed = False,
                 streamDeadline = (\<lambda>st. None)\<rparr>"

definition transport_shut :: transport where
  "transport_shut = transport0\<lparr>shutdownClosed := True\<rparr>"

definition transport_full :: transport where
  "transport_full =
     transport0\<lparr>packetCh := [\<lparr>Buf = [9], From = ''10.0.0.3:7946'', Timestamp = 0\<rparr>],
                packetCap := 1\<rparr>"

definition transport_shut_full :: transport where
  "transport_shut_full = transport_full\<lparr>shutdownClosed := True\<rparr>"

definition env_ok :: env where
  "env_ok = \<lparr>resolveUDPAddr = (\<lambda>a. Inr \<lparr>udp_ip = ''10.0.0.2'', udp_port = 7946\<rparr>),
             transportDial = (\<lambda>n call. (0, Inr n)),
             connRemoteAddr = (\<lambda>c. ''10.0.0.2:7946''),
             connLocalAddr = (\<lambda>c. ''10.0.0.1:7946''),
             connOpenStream = (\<lambda>c. Inr 0)\<rparr>"

definition env_unresolvable :: env where
  "env_unresolvable = env_ok\<lparr>resolveUDPAddr := (\<lambda>a. Inl (Err ''no such host''))\<rparr>"

definition env_refused :: env where
  "env_refused = env_ok\<lparr>transportDial := (\<lambda>n call. (0, Inl (Err ''handshake timeout'')))\<rparr>"

definition env_peer3 :: env where
  "env_peer3 = env_ok\<lparr>connRemoteAddr := (\<lambda>c. ''10.0.0.3:7946'')\<rparr>"

definition ctx0 :: ctx where
  "ctx0 = \<lparr>ctx_deadline = None, ctx_done = False\<rparr>"

definition pool1 :: pool_state where
  "pool1 = pool0\<lparr>entries := [(''10.0.0.2:7946'', 0)],
                 heap := (heap pool0)(0 := \<lparr>mu = False, conn = Some 7, createdAt = 0\<rparr>),
                 nextEntry := 1, clock := 100\<rparr>"

definition pool1_dead :: pool_state where
  "pool1_dead = pool1\<lparr>cancelled := {7}\<rparr>"

definition pool_aged :: pool_state where
  "pool_aged = pool1\<lparr>maxAge := 50\<rparr>"

definition pool_negative_age :: pool_state where
  "pool_negative_age = pool1\<lparr>maxAge := - 1\<rparr>"

definition pool_failed :: pool_state where
  "pool_failed = snd (GetOrDial env_unresolvable ctx0 ''10.0.0.3:7946'' pool1)"

text \<open>
  Two schedules of two callers: in the first, caller 1 runs \<^verbatim>\<open>GetConnection\<close> between
  caller 0's \<^verbatim>\<open>LoadOrStore\<close> and caller 0's \<^verbatim>\<open>entry.mu.Lock()\<close>; in the second, caller 0
  returns before caller 1 starts.
\<close>

definition race_schedule :: "nat list" where
  "race_schedule = [0, 0, 1, 1, 1, 1, 1, 1, 1, 1, 1, 0, 0, 0, 0]"

definition sequential_schedule :: "nat list" where
  "sequential_schedule = [0, 0, 0, 0, 0, 0, 1, 1, 1]"

section \<open>The framed-stream wire format\<close>

text \<open>
  Encoding and decoding the length are inverse; what \<^verbatim>\<open>sendViaStream\<close> calls and writes;
  what \<^verbatim>\<open>handleUniStream\<close> does with short, oversized and complete frames.
\<close>

lemma Uint32_PutUint32: "Uint32 (PutUint32 v) = v"
proof (rule bit_word_eqI)
  fix n assume "n < LENGTH(32)"
  then have n: "n < 32" by simp
  consider "n < 8" | "8 \<le> n" "n < 16" | "16 \<le> n" "n < 24" | "24 \<le> n" "n < 32"
    using n by linarith
  then show "bit (Uint32 (PutUint32 v)) n = bit v n"
    by cases (auto simp: Uint32_def PutUint32_def bit_simps)
qed

lemma length_PutUint32: "length (PutUint32 v) = 4"
  by (simp add: PutUint32_def)


lemma drop4_PutUint32: "drop 4 (PutUint32 v @ xs) = xs"
  by (simp add: length_PutUint32)

lemma unat_len32: "unat (word_of_nat n :: uint32) = n mod 2 ^ 32"
  by (simp add: unat_of_nat)

lemma unat_len32_small: "n \<le> 65536 \<Longrightarrow> unat (word_of_nat n :: uint32) = n"
  by (simp add: unat_of_nat)

lemma unat_len32_iff: "(unat (word_of_nat n :: uint32) = n) = (n < 2 ^ 32)"
proof
  assume "unat (word_of_nat n :: uint32) = n"
  then have "n mod 2 ^ 32 = n" by (simp add: unat_len32)
  moreover have "n mod 2 ^ 32 < (2 ^ 32 :: nat)" by simp
  ultimately show "n < 2 ^ 32" by metis
next
  assume "n < 2 ^ 32"
  then show "unat (word_of_nat n :: uint32) = n" by (simp add: unat_of_nat)
qed

lemma le_65536_word: "n \<le> 65536 \<Longrightarrow> (word_of_nat n :: uint32) \<le> 65536"
  by (simp add: word_le_nat_alt unat_of_nat)

lemma written_open_failed:
  "OpenUniStream_result cn = Some e \<Longrightarrow> sendViaStream cn payload = (Some e, [EvOpenUniStream])"
  by (simp add: sendViaStream_def)

lemma take4_written:
  "OpenUniStream_result cn = None \<Longrightarrow>
   take 4 (written (snd (sendViaStream cn payload))) = PutUint32 (word_of_nat (length payload))"
  by (simp add: sendViaStream_def Let_def length_PutUint32 split: option.splits)

lemma sendViaStream_success:
  assumes "sendViaStream cn payload = (None, evs)"
  shows "evs = [EvOpenUniStream, EvWrite (PutUint32 (word_of_nat (length payload))),
                EvWrite payload, EvClose]"
  using assms by (auto simp: sendViaStream_def Let_def split: option.splits)

lemma written_success:
  assumes "sendViaStream cn payload = (None, evs)"
  shows "written evs = PutUint32 (word_of_nat (length payload)) @ payload"
  using sendViaStream_success [OF assms] by simp

lemma sendViaStream_no_datagram: "EvSendDatagram b \<notin> set (snd (sendViaStream cn payload))"
  by (simp add: sendViaStream_def Let_def split: option.splits)

lemma sendViaStream_opens_once:
  "count_list (snd (sendViaStream cn payload)) EvOpenUniStream = 1"
  by (simp add: sendViaStream_def Let_def split: option.splits)


lemma handleUniStream_frame:
  assumes "unat v = length buf" "v \<le> 65536"
  shows "handleUniStream pick (PutUint32 v @ buf @ rest) remote t =
         select_packetCh pick \<lparr>Buf = buf, From = remote, Timestamp = clock (pool t)\<rparr> t"
proof -
  have "ReadFull 4 (PutUint32 v @ buf @ rest) = Some (PutUint32 v, buf @ rest)"
    using length_PutUint32 [of v] by (simp add: ReadFull_def)
  moreover have "ReadFull (unat v) (buf @ rest) = Some (buf, rest)"
    using assms(1) by (simp add: ReadFull_def)
  moreover have "\<not> 65536 < v" using assms(2) by simp
  ultimately show ?thesis
    by (simp add: handleUniStream_def Let_def Uint32_PutUint32)
qed

lemma select_packetCh_room:
  "\<not> shutdownClosed t \<Longrightarrow> length (packetCh t) < packetCap t \<Longrightarrow>
   select_packetCh pick pkt t = Some (t\<lparr>packetCh := packetCh t @ [pkt]\<rparr>)"
  by (simp add: select_packetCh_def)

lemma handleUniStream_short_header:
  "length data < 4 \<Longrightarrow> handleUniStream pick data remote t = Some t"
  by (simp add: handleUniStream_def ReadFull_def)

lemma handleUniStream_oversized:
  "4 \<le> length data \<Longrightarrow> 65536 < unat (Uint32 (take 4 data)) \<Longrightarrow>
   handleUniStream pick data remote t = Some t"
  by (simp add: handleUniStream_def ReadFull_def Let_def word_less_nat_alt)

lemma handleUniStream_short_payload:
  "4 \<le> length data \<Longrightarrow> unat (Uint32 (take 4 data)) \<le> 65536 \<Longrightarrow>
   length data < 4 + unat (Uint32 (take 4 data)) \<Longrightarrow>
   handleUniStream pick data remote t = Some t"
  by (auto simp: handleUniStream_def ReadFull_def Let_def word_less_nat_alt)

lemma handleUniStream_complete:
  "4 \<le> length data \<Longrightarrow> unat (Uint32 (take 4 data)) \<le> 65536 \<Longrightarrow>
   4 + unat (Uint32 (take 4 data)) \<le> length data \<Longrightarrow>
   handleUniStream pick data remote t =
     select_packetCh pick
       \<lparr>Buf = take (unat (Uint32 (take 4 data))) (drop 4 data), From = remote,
        Timestamp = clock (pool t)\<rparr> t"
  by (auto simp: handleUniStream_def ReadFull_def Let_def word_less_nat_alt)

text \<open>
  The example transport and connection, evaluated.
\<close>

lemma transport0_simps:
  "shutdownClosed transport0 = False" "packetCh transport0 = []" "packetCap transport0 = 256"
  "clock (pool transport0) = 0"
  by (simp_all add: transport0_def pool0_def)

lemma sendViaStream_conn_ok:
  "sendViaStream (conn_ok\<lparr>SupportsDatagramsRemote := x\<rparr>) [1, 2, 3] =
     (None, [EvOpenUniStream, EvWrite [0, 0, 0, 3], EvWrite [1, 2, 3], EvClose])"
  "sendViaStream (conn_ok\<lparr>SendDatagram_result := f\<rparr>) [1, 2, 3] =
     (None, [EvOpenUniStream, EvWrite [0, 0, 0, 3], EvWrite [1, 2, 3], EvClose])"
  by (simp_all add: sendViaStream_def conn_ok_def PutUint32_def)

text \<open>
  Claim C10. Once the stream is open, the 4-byte prefix \<^verbatim>\<open>sendViaStream\<close> writes decodes
  to the payload length modulo \<open>2 ^ 32\<close>; it equals the length exactly when the payload
  is shorter than \<open>2 ^ 32\<close> bytes; when the send succeeds the bytes after the prefix are
  the payload, so for a payload of \<open>2 ^ 32\<close> bytes or more the declared length differs
  from the number of bytes that follow it.
\<close>

theorem sendViaStream_prefix_mod:
  assumes "OpenUniStream_result cn = None"
  shows "unat (Uint32 (take 4 (written (snd (sendViaStream cn payload))))) =
           length payload mod 2 ^ 32
       \<and> ((unat (Uint32 (take 4 (written (snd (sendViaStream cn payload))))) = length payload)
            = (length payload < 2 ^ 32))
       \<and> (fst (sendViaStream cn payload) = None \<longrightarrow>
            drop 4 (written (snd (sendViaStream cn payload))) = payload)
       \<and> (fst (sendViaStream cn payload) = None \<and> 2 ^ 32 \<le> length payload \<longrightarrow>
            unat (Uint32 (take 4 (written (snd (sendViaStream cn payload))))) \<noteq>
            length (drop 4 (written (snd (sendViaStream cn payload)))))"
proof -
  have p: "Uint32 (take 4 (written (snd (sendViaStream cn payload)))) =
           word_of_nat (length payload)"
    by (simp add: take4_written [OF assms] Uint32_PutUint32)
  have d: "drop 4 (written (snd (sendViaStream cn payload))) = payload"
    if n: "fst (sendViaStream cn payload) = None"
  proof -
    obtain evs where e: "sendViaStream cn payload = (None, evs)"
      using n by (cases "sendViaStream cn payload") auto
    show ?thesis
      by (simp add: e written_success [OF e] length_PutUint32)
  qed
  have i: "(unat (word_of_nat (length payload) :: uint32) = length payload)
            = (length payload < 2 ^ 32)"
    by (rule unat_len32_iff)
  show ?thesis
    unfolding p using d i by (auto simp: unat_len32)
qed

theorem sendViaStream_prefix_mod_witness:
  "OpenUniStream_result conn_ok = None
   \<and> unat (Uint32 (take 4 (written (snd (sendViaStream conn_ok (replicate 4294967301 7)))))) = 5
   \<and> length (drop 4 (written (snd (sendViaStream conn_ok (replicate 4294967301 7))))) =
       4294967301"
proof -
  have o: "OpenUniStream_result conn_ok = None" by (simp add: conn_ok_def)
  have f: "fst (sendViaStream conn_ok (replicate 4294967301 7)) = None"
    by (simp add: sendViaStream_def conn_ok_def)
  show ?thesis
    using sendViaStream_prefix_mod [OF o, of "replicate 4294967301 7"] o f by simp
qed

text \<open>
  The final \<^verbatim>\<open>select\<close> of the handler in its four situations, and the example transports,
  evaluated.
\<close>

lemma select_packetCh_cases:
  "(\<not> shutdownClosed t \<and> length (packetCh t) < packetCap t \<longrightarrow>
      select_packetCh pick pkt t = Some (t\<lparr>packetCh := packetCh t @ [pkt]\<rparr>))
   \<and> (shutdownClosed t \<and> length (packetCh t) < packetCap t \<longrightarrow>
      select_packetCh pick pkt t = Some (if pick then t\<lparr>packetCh := packetCh t @ [pkt]\<rparr> else t))
   \<and> (shutdownClosed t \<and> \<not> length (packetCh t) < packetCap t \<longrightarrow>
      select_packetCh pick pkt t = Some t)
   \<and> (\<not> shutdownClosed t \<and> \<not> length (packetCh t) < packetCap t \<longrightarrow>
      select_packetCh pick pkt t = None)"
  by (simp add: select_packetCh_def Let_def)

lemma transport_examples_simps:
  "shutdownClosed transport_shut = True" "packetCh transport_shut = []"
  "packetCap transport_shut = 256" "clock (pool transport_shut) = 0"
  "shutdownClosed transport_full = False"
  "packetCh transport_full = [\<lparr>Buf = [9], From = ''10.0.0.3:7946'', Timestamp = 0\<rparr>]"
  "packetCap transport_full = 1" "clock (pool transport_full) = 0"
  "shutdownClosed transport_shut_full = True"
  "packetCh transport_shut_full = [\<lparr>Buf = [9], From = ''10.0.0.3:7946'', Timestamp = 0\<rparr>]"
  "packetCap transport_shut_full = 1" "clock (pool transport_shut_full) = 0"
  by (simp_all add: transport_shut_def transport_full_def transport_shut_full_def
      transport0_def pool0_def)

lemma sendViaStream_conn_ok_123:
  "sendViaStream conn_ok [1, 2, 3] =
     (None, [EvOpenUniStream, EvWrite [0, 0, 0, 3], EvWrite [1, 2, 3], EvClose])"
  by (simp add: sendViaStream_def conn_ok_def PutUint32_def)

lemma handleUniStream_123:
  "handleUniStream pick [0, 0, 0, 3, 1, 2, 3] remote t =
     select_packetCh pick \<lparr>Buf = [1, 2, 3], From = remote, Timestamp = clock (pool t)\<rparr> t"
  using handleUniStream_complete [of "[0, 0, 0, 3, 1, 2, 3]" pick remote t]
  by (simp add: Uint32_def)

text \<open>
  Claim C3 says that a payload of at most 65536 bytes, framed by \<^verbatim>\<open>sendViaStream\<close> and
  read by \<^verbatim>\<open>handleUniStream\<close>, is delivered as a packet event. The handler ends in a
  \<^verbatim>\<open>select\<close> between the send on \<^verbatim>\<open>packetCh\<close> and \<^verbatim>\<open>shutdownCh\<close>: with the shutdown channel
  closed and the queue full the packet is dropped, with the shutdown channel closed and
  room in the queue the runtime may pick the shutdown case and drop it, and with the
  queue full and the shutdown channel open the handler is blocked.
\<close>

theorem roundtrip_dropped_on_shutdown:
  "length [1, 2, 3 :: byte] \<le> 65536
   \<and> sendViaStream conn_ok [1, 2, 3] =
       (None, [EvOpenUniStream, EvWrite [0, 0, 0, 3], EvWrite [1, 2, 3], EvClose])
   \<and> written [EvOpenUniStream, EvWrite [0, 0, 0, 3], EvWrite [1, 2, 3], EvClose] =
       [0, 0, 0, 3, 1, 2, 3]
   \<and> handleUniStream True [0, 0, 0, 3, 1, 2, 3] ''10.0.0.2:7946'' transport_shut_full =
       Some transport_shut_full
   \<and> handleUniStream False [0, 0, 0, 3, 1, 2, 3] ''10.0.0.2:7946'' transport_shut =
       Some transport_shut
   \<and> handleUniStream True [0, 0, 0, 3, 1, 2, 3] ''10.0.0.2:7946'' transport_full = None"
  by (simp add: sendViaStream_conn_ok_123 handleUniStream_123 select_packetCh_def
      transport_examples_simps)

text \<open>
  Claim C3, amended. For a payload of at most 65536 bytes that \<^verbatim>\<open>sendViaStream\<close> sent
  without error, \<^verbatim>\<open>handleUniStream\<close> on the bytes written reaches its final \<^verbatim>\<open>select\<close>
  with a packet whose bytes are the payload. The packet is appended to the queue when
  the shutdown channel is open and the queue has room, and when the shutdown channel is
  closed, the queue has room and the runtime picks the send; the transport is left
  unchanged (no event) when the shutdown channel is closed and the queue is full, or has
  room and the runtime picks the shutdown case; with the shutdown channel open and the
  queue full the handler is blocked.
\<close>

theorem stream_frame_roundtrip:
  assumes "length payload \<le> 65536"
      and "sendViaStream cn payload = (None, evs)"
  shows "handleUniStream pick (written evs) remote t =
           select_packetCh pick \<lparr>Buf = payload, From = remote, Timestamp = clock (pool t)\<rparr> t
       \<and> (\<not> shutdownClosed t \<and> length (packetCh t) < packetCap t \<longrightarrow>
          handleUniStream pick (written evs) remote t =
            Some (t\<lparr>packetCh := packetCh t @
                    [\<lparr>Buf = payload, From = remote, Timestamp = clock (pool t)\<rparr>]\<rparr>))
       \<and> (shutdownClosed t \<and> length (packetCh t) < packetCap t \<longrightarrow>
          handleUniStream pick (written evs) remote t =
            Some (if pick
                  then t\<lparr>packetCh := packetCh t @
                         [\<lparr>Buf = payload, From = remote, Timestamp = clock (pool t)\<rparr>]\<rparr>
                  else t))
       \<and> (shutdownClosed t \<and> \<not> length (packetCh t) < packetCap t \<longrightarrow>
          handleUniStream pick (written evs) remote t = Some t)
       \<and> (\<not> shutdownClosed t \<and> \<not> length (packetCh t) < packetCap t \<longrightarrow>
          handleUniStream pick (written evs) remote t = None)"
proof -
  have w: "written evs = PutUint32 (word_of_nat (length payload)) @ payload @ []"
    using written_success [OF assms(2)] by simp
  have g: "handleUniStream pick (written evs) remote t =
           select_packetCh pick \<lparr>Buf = payload, From = remote, Timestamp = clock (pool t)\<rparr> t"
    unfolding w
    by (rule handleUniStream_frame) (simp_all add: unat_len32_small le_65536_word assms(1))
  show ?thesis
    unfolding g
    using select_packetCh_cases
      [of t pick "\<lparr>Buf = payload, From = remote, Timestamp = clock (pool t)\<rparr>"]
    by blast
qed

theorem stream_frame_roundtrip_witness:
  "length [1, 2, 3 :: byte] \<le> 65536
   \<and> sendViaStream conn_ok [1, 2, 3] =
       (None, [EvOpenUniStream, EvWrite [0, 0, 0, 3], EvWrite [1, 2, 3], EvClose])
   \<and> \<not> shutdownClosed transport0 \<and> length (packetCh transport0) < packetCap transport0
   \<and> handleUniStream True [0, 0, 0, 3, 1, 2, 3] ''10.0.0.2:7946'' transport0 =
       Some (transport0\<lparr>packetCh := [\<lparr>Buf = [1, 2, 3], From = ''10.0.0.2:7946'', Timestamp = 0\<rparr>]\<rparr>)
   \<and> shutdownClosed transport_shut \<and> length (packetCh transport_shut) < packetCap transport_shut
   \<and> handleUniStream True [0, 0, 0, 3, 1, 2, 3] ''10.0.0.2:7946'' transport_shut =
       Some (transport_shut\<lparr>packetCh := [\<lparr>Buf = [1, 2, 3], From = ''10.0.0.2:7946'', Timestamp = 0\<rparr>]\<rparr>)
   \<and> handleUniStream False [0, 0, 0, 3, 1, 2, 3] ''10.0.0.2:7946'' transport_shut =
       Some transport_shut
   \<and> shutdownClosed transport_shut_full
   \<and> \<not> length (packetCh transport_shut_full) < packetCap transport_shut_full
   \<and> handleUniStream True [0, 0, 0, 3, 1, 2, 3] ''10.0.0.2:7946'' transport_shut_full =
       Some transport_shut_full
   \<and> \<not> shutdownClosed transport_full
   \<and> \<not> length (packetCh transport_full) < packetCap transport_full
   \<and> handleUniStream True [0, 0, 0, 3, 1, 2, 3] ''10.0.0.2:7946'' transport_full = None"
proof -
  note s = sendViaStream_conn_ok_123
  have l: "length [1, 2, 3 :: byte] \<le> 65536" by simp
  have w: "written [EvOpenUniStream, EvWrite [0, 0, 0, 3], EvWrite [1, 2, 3], EvClose] =
       [0, 0, 0, 3, 1, 2, 3]" by simp
  note r = stream_frame_roundtrip [OF l s, unfolded w]
  have h0: "\<not> shutdownClosed transport0 \<and> length (packetCh transport0) < packetCap transport0"
    by (simp add: transport0_simps)
  have h1: "shutdownClosed transport_shut \<and> length (packetCh transport_shut) < packetCap transport_shut"
    by (simp add: transport_examples_simps)
  have h2: "shutdownClosed transport_shut_full
            \<and> \<not> length (packetCh transport_shut_full) < packetCap transport_shut_full"
    by (simp add: transport_examples_simps)
  have h3: "\<not> shutdownClosed transport_full
            \<and> \<not> length (packetCh transport_full) < packetCap transport_full"
    by (simp add: transport_examples_simps)
  have a: "handleUniStream True [0, 0, 0, 3, 1, 2, 3] ''10.0.0.2:7946'' transport0 =
        Some (transport0\<lparr>packetCh := packetCh transport0 @
          [\<lparr>Buf = [1, 2, 3], From = ''10.0.0.2:7946'', Timestamp = clock (pool transport0)\<rparr>]\<rparr>)"
    using r [of True "''10.0.0.2:7946''" transport0] h0 by blast
  have b: "handleUniStream True [0, 0, 0, 3, 1, 2, 3] ''10.0.0.2:7946'' transport_shut =
        Some (if True then transport_shut\<lparr>packetCh := packetCh transport_shut @
          [\<lparr>Buf = [1, 2, 3], From = ''10.0.0.2:7946'', Timestamp = clock (pool transport_shut)\<rparr>]\<rparr>
          else transport_shut)"
    using r [of True "''10.0.0.2:7946''" transport_shut] h1 by blast
  have c: "handleUniStream False [0, 0, 0, 3, 1, 2, 3] ''10.0.0.2:7946'' transport_shut =
        Some (if False then transport_shut\<lparr>packetCh := packetCh transport_shut @
          [\<lparr>Buf = [1, 2, 3], From = ''10.0.0.2:7946'', Timestamp = clock (pool transport_shut)\<rparr>]\<rparr>
          else transport_shut)"
    using r [of False "''10.0.0.2:7946''" transport_shut] h1 by blast
  have d: "handleUniStream True [0, 0, 0, 3, 1, 2, 3] ''10.0.0.2:7946'' transport_shut_full =
        Some transport_shut_full"
    using r [of True "''10.0.0.2:7946''" transport_shut_full] h2 by blast
  have e: "handleUniStream True [0, 0, 0, 3, 1, 2, 3] ''10.0.0.2:7946'' transport_full = None"
    using r [of True "''10.0.0.2:7946''" transport_full] h3 by blast
  show ?thesis
    using s l h0 h1 h2 h3 a b c d e by (simp add: transport0_simps transport_examples_simps)
qed

text \<open>
  The same round trip through \<^verbatim>\<open>sendDatagram\<close>, when the datagram is refused as too
  large and the stream send succeeds.
\<close>

lemma fallback_roundtrip:
  assumes "length payload \<le> 65536" "SupportsDatagramsRemote cn"
      and "SendDatagram_result cn payload = Some e" "errors_As_tooLarge e"
      and "sendDatagram cn now payload = ((now, None), evs)"
  shows "handleUniStream pick (written evs) remote t =
           select_packetCh pick \<lparr>Buf = payload, From = remote, Timestamp = clock (pool t)\<rparr> t"
proof -
  obtain evs' where s: "sendViaStream cn payload = (None, evs')" and e: "evs = EvSendDatagram payload # evs'"
    using assms(2-5) by (auto simp: sendDatagram_def split: prod.splits)
  have "written evs = PutUint32 (word_of_nat (length payload)) @ payload @ []"
    using written_success [OF s] e by simp
  then show ?thesis
    using handleUniStream_frame [of "word_of_nat (length payload)" payload pick "[]" remote t]
    by (simp add: unat_len32_small le_65536_word assms(1))
qed

text \<open>
  Claim C4 says that a complete frame of declared length at most 65536 is delivered as a
  packet event. A complete 1-byte frame is dropped when the shutdown channel is closed
  and the queue is full, or has room and the runtime picks the shutdown case; with the
  queue full and the shutdown channel open the handler is blocked.
\<close>

theorem complete_frame_dropped_on_shutdown:
  "4 \<le> length [0, 0, 0, 1, 5 :: byte]
   \<and> unat (Uint32 (take 4 [0, 0, 0, 1, 5])) = 1
   \<and> handleUniStream True [0, 0, 0, 1, 5] ''10.0.0.2:7946'' transport_shut_full =
       Some transport_shut_full
   \<and> handleUniStream False [0, 0, 0, 1, 5] ''10.0.0.2:7946'' transport_shut =
       Some transport_shut
   \<and> handleUniStream True [0, 0, 0, 1, 5] ''10.0.0.2:7946'' transport_full = None"
proof -
  have "handleUniStream pick [0, 0, 0, 1, 5] remote t =
     select_packetCh pick \<lparr>Buf = [5], From = remote, Timestamp = clock (pool t)\<rparr> t"
    for pick remote t
    using handleUniStream_complete [of "[0, 0, 0, 1, 5]" pick remote t]
    by (simp add: Uint32_def)
  then show ?thesis
    by (simp add: Uint32_def select_packetCh_def transport_examples_simps)
qed

text \<open>
  Claim C4, amended. \<^verbatim>\<open>handleUniStream\<close> on the bytes of a stream: with fewer than 4
  bytes, with a declared length above 65536, or with fewer payload bytes than declared,
  it returns with the transport unchanged (no packet event). With a declared length of
  at most 65536 (65536 included) and all payload bytes present, it reaches its final
  \<^verbatim>\<open>select\<close> with the payload as packet: the packet is appended to the queue when the
  shutdown channel is open and the queue has room, and when the shutdown channel is
  closed, the queue has room and the runtime picks the send; the transport is left
  unchanged (no event) when the shutdown channel is closed and the queue is full, or has
  room and the runtime picks the shutdown case; with the shutdown channel open and the
  queue full the handler is blocked.
\<close>

theorem handleUniStream_frame_cases:
  "(length data < 4 \<longrightarrow> handleUniStream pick data remote t = Some t)
   \<and> (4 \<le> length data \<and> 65536 < unat (Uint32 (take 4 data)) \<longrightarrow>
        handleUniStream pick data remote t = Some t)
   \<and> (4 \<le> length data \<and> unat (Uint32 (take 4 data)) \<le> 65536
        \<and> length data < 4 + unat (Uint32 (take 4 data)) \<longrightarrow>
        handleUniStream pick data remote t = Some t)
   \<and> (4 \<le> length data \<and> unat (Uint32 (take 4 data)) \<le> 65536
        \<and> 4 + unat (Uint32 (take 4 data)) \<le> length data \<longrightarrow>
        handleUniStream pick data remote t =
          select_packetCh pick
            \<lparr>Buf = take (unat (Uint32 (take 4 data))) (drop 4 data), From = remote,
             Timestamp = clock (pool t)\<rparr> t
        \<and> (\<not> shutdownClosed t \<and> length (packetCh t) < packetCap t \<longrightarrow>
           handleUniStream pick data remote t =
             Some (t\<lparr>packetCh := packetCh t @
               [\<lparr>Buf = take (unat (Uint32 (take 4 data))) (drop 4 data), From = remote,
                 Timestamp = clock (pool t)\<rparr>]\<rparr>))
        \<and> (shutdownClosed t \<and> length (packetCh t) < packetCap t \<longrightarrow>
           handleUniStream pick data remote t =
             Some (if pick
                   then t\<lparr>packetCh := packetCh t @
                     [\<lparr>Buf = take (unat (Uint32 (take 4 data))) (drop 4 data), From = remote,
                       Timestamp = clock (pool t)\<rparr>]\<rparr>
                   else t))
        \<and> (shutdownClosed t \<and> \<not> length (packetCh t) < packetCap t \<longrightarrow>
           handleUniStream pick data remote t = Some t)
        \<and> (\<not> shutdownClosed t \<and> \<not> length (packetCh t) < packetCap t \<longrightarrow>
           handleUniStream pick data remote t = None))"
proof -
  let ?pkt = "\<lparr>Buf = take (unat (Uint32 (take 4 data))) (drop 4 data), From = remote,
             Timestamp = clock (pool t)\<rparr>"
  have c: "handleUniStream pick data remote t = select_packetCh pick ?pkt t
        \<and> (\<not> shutdownClosed t \<and> length (packetCh t) < packetCap t \<longrightarrow>
           handleUniStream pick data remote t = Some (t\<lparr>packetCh := packetCh t @ [?pkt]\<rparr>))
        \<and> (shutdownClosed t \<and> length (packetCh t) < packetCap t \<longrightarrow>
           handleUniStream pick data remote t =
             Some (if pick then t\<lparr>packetCh := packetCh t @ [?pkt]\<rparr> else t))
        \<and> (shutdownClosed t \<and> \<not> length (packetCh t) < packetCap t \<longrightarrow>
           handleUniStream pick data remote t = Some t)
        \<and> (\<not> shutdownClosed t \<and> \<not> length (packetCh t) < packetCap t \<longrightarrow>
           handleUniStream pick data remote t = None)"
    if "4 \<le> length data \<and> unat (Uint32 (take 4 data)) \<le> 65536
        \<and> 4 + unat (Uint32 (take 4 data)) \<le> length data"
  proof -
    have g: "handleUniStream pick data remote t = select_packetCh pick ?pkt t"
      using that handleUniStream_complete [of data pick remote t] by blast
    show ?thesis
      unfolding g using select_packetCh_cases [of t pick ?pkt] by blast
  qed
  show ?thesis
    using handleUniStream_short_header [of data pick remote t]
        handleUniStream_oversized [of data pick remote t]
        handleUniStream_short_payload [of data pick remote t]
        c
    by blast
qed

theorem handleUniStream_frame_cases_witness:
  "handleUniStream True [0, 0] ''10.0.0.2:7946'' transport0 = Some transport0
   \<and> handleUniStream True ([0, 1, 0, 1] @ replicate 65537 7) ''10.0.0.2:7946'' transport0 =
       Some transport0
   \<and> handleUniStream True [0, 0, 0, 3, 1] ''10.0.0.2:7946'' transport0 = Some transport0
   \<and> handleUniStream True ([0, 1, 0, 0] @ replicate 65536 7) ''10.0.0.2:7946'' transport0 =
       Some (transport0\<lparr>packetCh :=
         [\<lparr>Buf = replicate 65536 7, From = ''10.0.0.2:7946'', Timestamp = 0\<rparr>]\<rparr>)
   \<and> handleUniStream True [0, 0, 0, 1, 5] ''10.0.0.2:7946'' transport_shut =
       Some (transport_shut\<lparr>packetCh :=
         [\<lparr>Buf = [5], From = ''10.0.0.2:7946'', Timestamp = 0\<rparr>]\<rparr>)
   \<and> handleUniStream False [0, 0, 0, 1, 5] ''10.0.0.2:7946'' transport_shut =
       Some transport_shut
   \<and> handleUniStream True [0, 0, 0, 1, 5] ''10.0.0.2:7946'' transport_shut_full =
       Some transport_shut_full
   \<and> handleUniStream True [0, 0, 0, 1, 5] ''10.0.0.2:7946'' transport_full = None"
proof -
  have a: "handleUniStream True [0, 0] ''10.0.0.2:7946'' transport0 = Some transport0"
    using handleUniStream_frame_cases [of "[0, 0]" True "''10.0.0.2:7946''" transport0] by simp
  have b: "handleUniStream True ([0, 1, 0, 1] @ replicate 65537 7) ''10.0.0.2:7946'' transport0 =
       Some transport0"
    using handleUniStream_frame_cases [of "[0, 1, 0, 1] @ replicate 65537 7" True "''10.0.0.2:7946''" transport0]
    by (simp add: Uint32_def)
  have c: "handleUniStream True [0, 0, 0, 3, 1] ''10.0.0.2:7946'' transport0 = Some transport0"
    using handleUniStream_frame_cases [of "[0, 0, 0, 3, 1]" True "''10.0.0.2:7946''" transport0]
    by (simp add: Uint32_def)
  have h: "4 \<le> length ([0, 1, 0, 0] @ replicate 65536 (7 :: byte))
       \<and> unat (Uint32 (take 4 ([0, 1, 0, 0] @ replicate 65536 7))) \<le> 65536
       \<and> 4 + unat (Uint32 (take 4 ([0, 1, 0, 0] @ replicate 65536 7)))
           \<le> length ([0, 1, 0, 0] @ replicate 65536 (7 :: byte))"
    by (simp add: Uint32_def)
  have r: "\<not> shutdownClosed transport0 \<and> length (packetCh transport0) < packetCap transport0"
    by (simp add: transport0_simps)
  have "handleUniStream True ([0, 1, 0, 0] @ replicate 65536 7) ''10.0.0.2:7946'' transport0 =
       Some (transport0\<lparr>packetCh := packetCh transport0 @
         [\<lparr>Buf = take (unat (Uint32 (take 4 ([0, 1, 0, 0] @ replicate 65536 7))))
                  (drop 4 ([0, 1, 0, 0] @ replicate 65536 7)),
           From = ''10.0.0.2:7946'', Timestamp = clock (pool transport0)\<rparr>]\<rparr>)"
    using handleUniStream_frame_cases [of "[0, 1, 0, 0] @ replicate 65536 7" True "''10.0.0.2:7946''" transport0] h r
    by blast
  then have d: "handleUniStream True ([0, 1, 0, 0] @ replicate 65536 7) ''10.0.0.2:7946'' transport0 =
       Some (transport0\<lparr>packetCh :=
         [\<lparr>Buf = replicate 65536 7, From = ''10.0.0.2:7946'', Timestamp = 0\<rparr>]\<rparr>)"
    by (simp add: Uint32_def transport0_simps)
  let ?f = "[0, 0, 0, 1, 5 :: byte]"
  let ?p = "\<lambda>t. \<lparr>Buf = take (unat (Uint32 (take 4 ?f))) (drop 4 ?f), From = ''10.0.0.2:7946'',
                  Timestamp = clock (pool t)\<rparr>"
  have hf: "4 \<le> length ?f \<and> unat (Uint32 (take 4 ?f)) \<le> 65536
            \<and> 4 + unat (Uint32 (take 4 ?f)) \<le> length ?f"
    by (simp add: Uint32_def)
  have h1: "shutdownClosed transport_shut \<and> length (packetCh transport_shut) < packetCap transport_shut"
    by (simp add: transport_examples_simps)
  have h2: "shutdownClosed transport_shut_full
            \<and> \<not> length (packetCh transport_shut_full) < packetCap transport_shut_full"
    by (simp add: transport_examples_simps)
  have h3: "\<not> shutdownClosed transport_full
            \<and> \<not> length (packetCh transport_full) < packetCap transport_full"
    by (simp add: transport_examples_simps)
  have "handleUniStream True ?f ''10.0.0.2:7946'' transport_shut =
        Some (if True then transport_shut\<lparr>packetCh := packetCh transport_shut @ [?p transport_shut]\<rparr>
              else transport_shut)"
    using handleUniStream_frame_cases [of ?f True "''10.0.0.2:7946''" transport_shut] hf h1
    by blast
  then have e: "handleUniStream True ?f ''10.0.0.2:7946'' transport_shut =
       Some (transport_shut\<lparr>packetCh :=
         [\<lparr>Buf = [5], From = ''10.0.0.2:7946'', Timestamp = 0\<rparr>]\<rparr>)"
    by (simp add: Uint32_def transport_examples_simps)
  have "handleUniStream False ?f ''10.0.0.2:7946'' transport_shut =
        Some (if False then transport_shut\<lparr>packetCh := packetCh transport_shut @ [?p transport_shut]\<rparr>
              else transport_shut)"
    using handleUniStream_frame_cases [of ?f False "''10.0.0.2:7946''" transport_shut] hf h1
    by blast
  then have f: "handleUniStream False ?f ''10.0.0.2:7946'' transport_shut = Some transport_shut"
    by simp
  have g: "handleUniStream True ?f ''10.0.0.2:7946'' transport_shut_full = Some transport_shut_full"
    using handleUniStream_frame_cases [of ?f True "''10.0.0.2:7946''" transport_shut_full] hf h2
    by blast
  have i: "handleUniStream True ?f ''10.0.0.2:7946'' transport_full = None"
    using handleUniStream_frame_cases [of ?f True "''10.0.0.2:7946''" transport_full] hf h3
    by blast
  show ?thesis using a b c d e f g i by simp
qed




section \<open>The fallback send\<close>

text \<open>
  Claim C2. \<^verbatim>\<open>sendDatagram\<close>: when the peer does not support datagrams the result and the
  calls are those of \<^verbatim>\<open>sendViaStream\<close>, which never calls \<^verbatim>\<open>SendDatagram\<close>; otherwise
  \<^verbatim>\<open>SendDatagram\<close> is called first: on success nothing else is called; on an error
  that is (or wraps) a \<^verbatim>\<open>DatagramTooLargeError\<close>, \<^verbatim>\<open>sendViaStream\<close> runs once after it and
  its result is returned; any other error is returned as it is, with no stream opened.
  \<^verbatim>\<open>sendViaStream\<close> opens exactly one stream.
\<close>

theorem sendDatagram_fallback:
  "(\<not> SupportsDatagramsRemote cn \<longrightarrow>
      sendDatagram cn now payload =
        ((now, fst (sendViaStream cn payload)), snd (sendViaStream cn payload)))
   \<and> (SupportsDatagramsRemote cn \<and> SendDatagram_result cn payload = None \<longrightarrow>
      sendDatagram cn now payload = ((now, None), [EvSendDatagram payload]))
   \<and> (SupportsDatagramsRemote cn \<and> SendDatagram_result cn payload = Some e
        \<and> errors_As_tooLarge e \<longrightarrow>
      sendDatagram cn now payload =
        ((now, fst (sendViaStream cn payload)),
         EvSendDatagram payload # snd (sendViaStream cn payload)))
   \<and> (SupportsDatagramsRemote cn \<and> SendDatagram_result cn payload = Some e
        \<and> \<not> errors_As_tooLarge e \<longrightarrow>
      sendDatagram cn now payload = ((now, Some e), [EvSendDatagram payload]))
   \<and> (\<forall>b. EvSendDatagram b \<notin> set (snd (sendViaStream cn payload)))
   \<and> count_list (snd (sendViaStream cn payload)) EvOpenUniStream = 1"
  using sendViaStream_no_datagram [of _ cn payload] sendViaStream_opens_once [of cn payload]
  by (simp add: sendDatagram_def split: prod.splits)

theorem sendDatagram_fallback_witness:
  "sendDatagram conn_nodgram 5 [1, 2, 3] =
     ((5, None), [EvOpenUniStream, EvWrite [0, 0, 0, 3], EvWrite [1, 2, 3], EvClose])
   \<and> sendDatagram conn_ok 5 [1, 2, 3] = ((5, None), [EvSendDatagram [1, 2, 3]])
   \<and> sendDatagram conn_toolarge 5 [1, 2, 3] =
     ((5, None), [EvSendDatagram [1, 2, 3], EvOpenUniStream, EvWrite [0, 0, 0, 3],
                  EvWrite [1, 2, 3], EvClose])
   \<and> sendDatagram conn_broken 5 [1, 2, 3] =
     ((5, Some (Err ''connection closed'')), [EvSendDatagram [1, 2, 3]])"
proof -
  have a: "sendDatagram conn_nodgram 5 [1, 2, 3] =
     ((5, None), [EvOpenUniStream, EvWrite [0, 0, 0, 3], EvWrite [1, 2, 3], EvClose])"
    using sendDatagram_fallback [of conn_nodgram 5 "[1, 2, 3]"]
    by (simp add: conn_nodgram_def sendViaStream_conn_ok)
  have b: "sendDatagram conn_ok 5 [1, 2, 3] = ((5, None), [EvSendDatagram [1, 2, 3]])"
    using sendDatagram_fallback [of conn_ok 5 "[1, 2, 3]"] by (simp add: conn_ok_def)
  have c: "sendDatagram conn_toolarge 5 [1, 2, 3] =
     ((5, None), [EvSendDatagram [1, 2, 3], EvOpenUniStream, EvWrite [0, 0, 0, 3],
                  EvWrite [1, 2, 3], EvClose])"
    using sendDatagram_fallback [of conn_toolarge 5 "[1, 2, 3]" "DatagramTooLargeError 1200"]
    by (simp add: conn_toolarge_def sendViaStream_conn_ok) (simp add: conn_ok_def)
  have d: "sendDatagram conn_broken 5 [1, 2, 3] =
     ((5, Some (Err ''connection closed'')), [EvSendDatagram [1, 2, 3]])"
    using sendDatagram_fallback [of conn_broken 5 "[1, 2, 3]" "Err ''connection closed''"]
    by (simp add: conn_broken_def) (simp add: conn_ok_def)
  show ?thesis using a b c d by simp
qed

section \<open>The pool, one goroutine at a time\<close>

lemma wf_pool_ptr: "wf_pool s \<Longrightarrow> map_of (entries s) k = Some e \<Longrightarrow> e < nextEntry s"
  by (auto simp: wf_pool_def dest: map_of_SomeD)

lemma getAliveConn_cancelled:
  "cancelled s' = cancelled s \<Longrightarrow> getAliveConn s' en = getAliveConn s en"
  by (simp add: getAliveConn_def ctxErr_def split: option.splits)

lemma getAliveConn_Some_iff:
  "(getAliveConn s en = Some c) = (conn en = Some c \<and> c \<notin> cancelled s)"
  by (auto simp: getAliveConn_def ctxErr_def split: option.splits)

lemma getAliveConn_None_iff:
  "(getAliveConn s en = None) = (conn en = None \<or> (\<exists>c. conn en = Some c \<and> c \<in> cancelled s))"
  by (auto simp: getAliveConn_def ctxErr_def split: option.splits)

lemma wf_pool0: "wf_pool pool0"
  by (simp add: wf_pool_def pool0_def)

lemma wf_pool1: "wf_pool pool1" "wf_pool pool1_dead" "wf_pool pool_aged" "wf_pool pool_negative_age"
  by (simp_all add: wf_pool_def pool1_def pool0_def pool1_dead_def pool_aged_def
      pool_negative_age_def)

lemmas eval_defs = step_def callers_def pool0_def env_ok_def ctx0_def newPoolEntry_def
  LoadOrStore_def Lock_def Unlock_def getAliveConn_def ctxErr_def dial_def onNewConn_def
  setConn_def Let_def race_schedule_def

lemmas pool_defs = pool1_def pool1_dead_def pool_aged_def pool_negative_age_def

text \<open>
  \<^verbatim>\<open>AddInbound\<close> in its three cases. The entry it allocates first is garbage unless it is
  stored in the map.
\<close>

lemma AddInbound_absent:
  assumes "map_of (entries s) (connRemoteAddr ev c) = None"
  shows "AddInbound ev c s =
           (setConn (nextEntry s) c (snd (newPoolEntry s)))
             \<lparr>entries := AList.update (connRemoteAddr ev c) (nextEntry s) (entries s)\<rparr>"
  using assms by (simp add: AddInbound_def Let_def newPoolEntry_def setConn_def LoadOrStore_def)

lemma AddInbound_alive:
  assumes "map_of (entries s) (connRemoteAddr ev c) = Some e" "e < nextEntry s"
      and "getAliveConn s (heap s e) = Some c0"
  shows "AddInbound ev c s = setConn (nextEntry s) c (snd (newPoolEntry s))"
  using assms
  by (auto simp: AddInbound_def Let_def newPoolEntry_def setConn_def LoadOrStore_def
      getAliveConn_Some_iff getAliveConn_None_iff)

lemma AddInbound_dead:
  assumes "map_of (entries s) (connRemoteAddr ev c) = Some e" "e < nextEntry s"
      and "getAliveConn s (heap s e) = None"
  shows "AddInbound ev c s = setConn e c (setConn (nextEntry s) c (snd (newPoolEntry s)))"
  using assms
  by (auto simp: AddInbound_def Let_def newPoolEntry_def setConn_def LoadOrStore_def
      getAliveConn_Some_iff getAliveConn_None_iff)

lemma lookupConn_fresh:
  assumes "wf_pool s"
  shows "lookupConn (setConn (nextEntry s) c (snd (newPoolEntry s))) k = lookupConn s k"
proof (cases "map_of (entries s) k")
  case None
  then show ?thesis by (simp add: lookupConn_def setConn_def newPoolEntry_def)
next
  case (Some e)
  then have "e \<noteq> nextEntry s" using wf_pool_ptr [OF assms Some] by simp
  then show ?thesis using Some by (simp add: lookupConn_def setConn_def newPoolEntry_def)
qed

text \<open>
  Claim C5. \<^verbatim>\<open>AddInbound\<close> of connection \<open>c\<close> on a well-formed pool, keyed by the remote
  address of \<open>c\<close>: with no entry for the address, the address is bound to \<open>c\<close>; with an
  entry whose connection is alive, the map, that entry and what every address is bound to
  stay as they were; with an entry whose connection is dead (nil, or its session
  reports an error), the entry is rebound to \<open>c\<close> with the current time. In no case is
  a connection closed.
\<close>

theorem AddInbound_tie_break:
  assumes "wf_pool s"
  shows "(map_of (entries s) (connRemoteAddr ev c) = None \<longrightarrow>
            lookupConn (AddInbound ev c s) (connRemoteAddr ev c) = Some (Some c))
       \<and> (\<forall>e c0. map_of (entries s) (connRemoteAddr ev c) = Some e
                  \<and> getAliveConn s (heap s e) = Some c0 \<longrightarrow>
            entries (AddInbound ev c s) = entries s
            \<and> heap (AddInbound ev c s) e = heap s e
            \<and> (\<forall>k. lookupConn (AddInbound ev c s) k = lookupConn s k))
       \<and> (\<forall>e. map_of (entries s) (connRemoteAddr ev c) = Some e
               \<and> getAliveConn s (heap s e) = None \<longrightarrow>
            entries (AddInbound ev c s) = entries s
            \<and> conn (heap (AddInbound ev c s) e) = Some c
            \<and> createdAt (heap (AddInbound ev c s) e) = clock s)
       \<and> closeLog (AddInbound ev c s) = closeLog s
       \<and> cancelled (AddInbound ev c s) = cancelled s"
proof -
  have a: "lookupConn (AddInbound ev c s) (connRemoteAddr ev c) = Some (Some c)"
    if "map_of (entries s) (connRemoteAddr ev c) = None"
    by (simp add: AddInbound_absent [OF that] lookupConn_def setConn_def newPoolEntry_def
        update_conv')
  have b: "entries (AddInbound ev c s) = entries s
            \<and> heap (AddInbound ev c s) e = heap s e
            \<and> (\<forall>k. lookupConn (AddInbound ev c s) k = lookupConn s k)"
    if m: "map_of (entries s) (connRemoteAddr ev c) = Some e"
      and g: "getAliveConn s (heap s e) = Some c0" for e c0
  proof -
    have p: "e < nextEntry s" by (rule wf_pool_ptr [OF assms m])
    show ?thesis
      unfolding AddInbound_alive [OF m p g] using p lookupConn_fresh [OF assms]
      by (simp add: setConn_def newPoolEntry_def)
  qed
  have d: "entries (AddInbound ev c s) = entries s
            \<and> conn (heap (AddInbound ev c s) e) = Some c
            \<and> createdAt (heap (AddInbound ev c s) e) = clock s"
    if m: "map_of (entries s) (connRemoteAddr ev c) = Some e"
      and g: "getAliveConn s (heap s e) = None" for e
  proof -
    have p: "e < nextEntry s" by (rule wf_pool_ptr [OF assms m])
    show ?thesis
      unfolding AddInbound_dead [OF m p g] by (simp add: setConn_def newPoolEntry_def)
  qed
  have l: "closeLog (AddInbound ev c s) = closeLog s \<and> cancelled (AddInbound ev c s) = cancelled s"
    by (simp add: AddInbound_def Let_def newPoolEntry_def setConn_def LoadOrStore_def
        split: option.splits)
  show ?thesis using a b d l by blast
qed

theorem AddInbound_tie_break_witness:
  "wf_pool pool0 \<and> wf_pool pool1 \<and> wf_pool pool1_dead
   \<and> lookupConn pool0 ''10.0.0.2:7946'' = None
   \<and> lookupConn (AddInbound env_ok 9 pool0) ''10.0.0.2:7946'' = Some (Some 9)
   \<and> lookupConn pool1 ''10.0.0.2:7946'' = Some (Some 7)
   \<and> getAliveConn pool1 (heap pool1 0) = Some 7
   \<and> lookupConn (AddInbound env_ok 9 pool1) ''10.0.0.2:7946'' = Some (Some 7)
   \<and> closeLog (AddInbound env_ok 9 pool1) = []
   \<and> getAliveConn pool1_dead (heap pool1_dead 0) = None
   \<and> conn (heap (AddInbound env_ok 9 pool1_dead) 0) = Some 9"
proof -
  have r: "connRemoteAddr env_ok 9 = ''10.0.0.2:7946''" by (simp add: env_ok_def)
  have a0: "map_of (entries pool0) ''10.0.0.2:7946'' = None" by (simp add: pool0_def)
  have a: "lookupConn (AddInbound env_ok 9 pool0) ''10.0.0.2:7946'' = Some (Some 9)"
    using AddInbound_tie_break [OF wf_pool0, of env_ok 9] a0 r by simp
  have b0: "map_of (entries pool1) ''10.0.0.2:7946'' = Some 0
            \<and> getAliveConn pool1 (heap pool1 0) = Some 7"
    by (simp add: pool1_def pool0_def getAliveConn_def ctxErr_def)
  have b1: "lookupConn pool1 ''10.0.0.2:7946'' = Some (Some 7)"
    by (simp add: pool1_def pool0_def lookupConn_def)
  have "(\<forall>k. lookupConn (AddInbound env_ok 9 pool1) k = lookupConn pool1 k)
        \<and> closeLog (AddInbound env_ok 9 pool1) = closeLog pool1"
    using AddInbound_tie_break [OF wf_pool1(1), of env_ok 9] b0 r by auto
  then have b: "lookupConn (AddInbound env_ok 9 pool1) ''10.0.0.2:7946'' = Some (Some 7)
                \<and> closeLog (AddInbound env_ok 9 pool1) = []"
    using b1 by (simp add: pool1_def pool0_def)
  have c0: "map_of (entries pool1_dead) ''10.0.0.2:7946'' = Some 0
            \<and> getAliveConn pool1_dead (heap pool1_dead 0) = None"
    by (simp add: pool1_dead_def pool1_def pool0_def getAliveConn_def ctxErr_def)
  have c: "conn (heap (AddInbound env_ok 9 pool1_dead) 0) = Some 9"
    using AddInbound_tie_break [OF wf_pool1(2), of env_ok 9] c0 r by auto
  show ?thesis
    using a b c b0 b1 c0 wf_pool0 wf_pool1 by (simp add: lookupConn_def pool0_def)
qed

subsection \<open>The sweep\<close>

text \<open>
  A sweep pass changes only the map, the close log and the cancelled sessions; it only
  removes keys, and only closes with its own reason.
\<close>

lemma set_delete_subset: "set (AList.delete k m) \<subseteq> set m"
  by (auto simp: AList.delete_eq)

lemma set_update_subset: "set (AList.update k v m) \<subseteq> insert (k, v) (set m)"
  by (induction m) auto

lemma sweep_entry_fields:
  "heap (sweep_entry now kv s) = heap s"
  "maxAge (sweep_entry now kv s) = maxAge s"
  "clock (sweep_entry now kv s) = clock s"
  "nextEntry (sweep_entry now kv s) = nextEntry s"
  by (simp_all add: sweep_entry_def Let_def CloseWithError_def split: option.splits)

lemma sweep_entry_entries:
  "entries (sweep_entry now kv s) = entries s
   \<or> entries (sweep_entry now kv s) = AList.delete (fst kv) (entries s)"
  by (simp add: sweep_entry_def Let_def CloseWithError_def split: option.splits)

lemma sweep_entry_subset: "set (entries (sweep_entry now kv s)) \<subseteq> set (entries s)"
  using sweep_entry_entries [of now kv s] set_delete_subset [of "fst kv" "entries s"] by auto

lemma fold_sweep_fields:
  "heap (fold (sweep_entry now) xs s) = heap s
   \<and> maxAge (fold (sweep_entry now) xs s) = maxAge s
   \<and> clock (fold (sweep_entry now) xs s) = clock s
   \<and> nextEntry (fold (sweep_entry now) xs s) = nextEntry s"
  by (induction xs arbitrary: s) (simp_all add: sweep_entry_fields)

lemma fold_sweep_subset: "set (entries (fold (sweep_entry now) xs s)) \<subseteq> set (entries s)"
proof (induction xs arbitrary: s)
  case Nil
  then show ?case by simp
next
  case (Cons x xs)
  have "set (entries (fold (sweep_entry now) xs (sweep_entry now x s)))
        \<subseteq> set (entries (sweep_entry now x s))"
    by (rule Cons.IH)
  then show ?case using sweep_entry_subset [of now x s] by auto
qed

lemma sweep_subset: "set (entries (sweep s)) \<subseteq> set (entries s)"
  by (simp add: sweep_def fold_sweep_subset)

lemma sweep_heap: "heap (sweep s) = heap s"
  by (simp add: sweep_def fold_sweep_fields)

lemma sweep_entry_cancelled_mono: "cancelled s \<subseteq> cancelled (sweep_entry now kv s)"
  by (auto simp: sweep_entry_def Let_def CloseWithError_def split: option.splits)

lemma sweep_entry_closeLog_mono: "set (closeLog s) \<subseteq> set (closeLog (sweep_entry now kv s))"
  by (auto simp: sweep_entry_def Let_def CloseWithError_def split: option.splits)

lemma sweep_entry_cancelled_origin:
  "c \<in> cancelled (sweep_entry now kv s) \<Longrightarrow>
   c \<in> cancelled s \<or> (c, ''max connection age exceeded'') \<in> set (closeLog (sweep_entry now kv s))"
  by (auto simp: sweep_entry_def Let_def CloseWithError_def split: option.splits if_splits)

lemma fold_sweep_cancelled_mono: "cancelled s \<subseteq> cancelled (fold (sweep_entry now) xs s)"
proof (induction xs arbitrary: s)
  case Nil
  then show ?case by simp
next
  case (Cons x xs)
  show ?case using Cons.IH [of "sweep_entry now x s"] sweep_entry_cancelled_mono [of s now x]
    by auto
qed

lemma fold_sweep_closeLog_mono:
  "set (closeLog s) \<subseteq> set (closeLog (fold (sweep_entry now) xs s))"
proof (induction xs arbitrary: s)
  case Nil
  then show ?case by simp
next
  case (Cons x xs)
  show ?case using Cons.IH [of "sweep_entry now x s"] sweep_entry_closeLog_mono [of s now x]
    by auto
qed

lemma fold_sweep_key_gone:
  assumes "k \<notin> fst ` set (entries s)"
  shows "k \<notin> fst ` set (entries (fold (sweep_entry now) xs s))"
  using assms fold_sweep_subset [of now xs s] by auto

lemma doomed_step: "doomed now s e \<Longrightarrow> doomed now (sweep_entry now kv s) e"
  using sweep_entry_cancelled_mono [of s now kv]
  by (auto simp: doomed_def sweep_entry_fields split: option.splits)

lemma sweep_entry_doomed:
  "doomed now s e \<Longrightarrow> entries (sweep_entry now (k, e) s) = AList.delete k (entries s)"
  by (auto simp: doomed_def sweep_entry_def Let_def CloseWithError_def ctxErr_def
      split: option.splits)

lemma fold_sweep_removes:
  assumes "(k, e) \<in> set xs" "doomed now s e"
  shows "k \<notin> fst ` set (entries (fold (sweep_entry now) xs s))"
  using assms
proof (induction xs arbitrary: s)
  case Nil
  then show ?case by simp
next
  case (Cons x xs)
  show ?case
  proof (cases "x = (k, e)")
    case True
    have "k \<notin> fst ` set (entries (sweep_entry now x s))"
      unfolding True sweep_entry_doomed [OF Cons.prems(2)] by (rule delete_notin_dom)
    then show ?thesis using fold_sweep_key_gone by simp
  next
    case False
    then have "(k, e) \<in> set xs" using Cons.prems(1) by simp
    then show ?thesis using Cons.IH [OF _ doomed_step [OF Cons.prems(2)]] by simp
  qed
qed

lemma fold_sweep_closes:
  assumes "(k, e) \<in> set xs" "conn (heap s e) = Some c"
      and "0 < maxAge s" "maxAge s < Time_Sub now (createdAt (heap s e))"
  shows "c \<in> cancelled s
         \<or> (c, ''max connection age exceeded'') \<in> set (closeLog (fold (sweep_entry now) xs s))"
  using assms
proof (induction xs arbitrary: s)
  case Nil
  then show ?case by simp
next
  case (Cons x xs)
  let ?s1 = "sweep_entry now x s"
  show ?case
  proof (cases "x = (k, e)")
    case True
    have "c \<in> cancelled s \<or> (c, ''max connection age exceeded'') \<in> set (closeLog ?s1)"
      using Cons.prems(2,3,4) unfolding True
      by (auto simp: sweep_entry_def Let_def CloseWithError_def ctxErr_def)
    then show ?thesis using fold_sweep_closeLog_mono [of ?s1 now xs] by auto
  next
    case False
    then have m: "(k, e) \<in> set xs" using Cons.prems(1) by simp
    have "c \<in> cancelled ?s1
          \<or> (c, ''max connection age exceeded'') \<in> set (closeLog (fold (sweep_entry now) xs ?s1))"
      using Cons.IH [OF m, of ?s1] Cons.prems(2,3,4) by (simp add: sweep_entry_fields)
    moreover have "(c, ''max connection age exceeded'') \<in> set (closeLog (fold (sweep_entry now) xs ?s1))"
      if "c \<in> cancelled ?s1" "c \<notin> cancelled s"
      using that sweep_entry_cancelled_origin [of c now x s] fold_sweep_closeLog_mono [of ?s1 now xs]
      by auto
    ultimately show ?thesis by auto
  qed
qed

lemma fold_sweep_cancels:
  assumes "(k, e) \<in> set xs" "conn (heap s e) = Some c"
      and "0 < maxAge s" "maxAge s < Time_Sub now (createdAt (heap s e))"
  shows "c \<in> cancelled (fold (sweep_entry now) xs s)"
  using assms
proof (induction xs arbitrary: s)
  case Nil
  then show ?case by simp
next
  case (Cons x xs)
  let ?s1 = "sweep_entry now x s"
  show ?case
  proof (cases "x = (k, e)")
    case True
    have "c \<in> cancelled ?s1"
      using Cons.prems(2,3,4) unfolding True
      by (auto simp: sweep_entry_def Let_def CloseWithError_def ctxErr_def)
    then show ?thesis using fold_sweep_cancelled_mono [of ?s1 now xs] by auto
  next
    case False
    then have m: "(k, e) \<in> set xs" using Cons.prems(1) by simp
    show ?thesis
      using Cons.IH [OF m, of ?s1] Cons.prems(2,3,4) by (simp add: sweep_entry_fields)
  qed
qed

lemma fold_sweep_keeps:
  assumes "map_of (entries s) k = Some e" "conn (heap s e) = Some c" "c \<notin> cancelled s"
      and "\<not> (0 < maxAge s \<and> maxAge s < Time_Sub now (createdAt (heap s e)))"
      and "\<forall>kv \<in> set xs. fst kv = k \<longrightarrow> snd kv = e"
      and "\<forall>kv \<in> set xs. fst kv \<noteq> k \<longrightarrow> conn (heap s (snd kv)) \<noteq> Some c"
  shows "map_of (entries (fold (sweep_entry now) xs s)) k = Some e
         \<and> c \<notin> cancelled (fold (sweep_entry now) xs s)"
  using assms
proof (induction xs arbitrary: s)
  case Nil
  then show ?case by simp
next
  case (Cons x xs)
  let ?s1 = "sweep_entry now x s"
  have s1: "map_of (entries ?s1) k = Some e \<and> c \<notin> cancelled ?s1"
  proof (cases "fst x = k")
    case True
    then have "x = (k, e)" using Cons.prems(5) by (cases x) auto
    then have "?s1 = s"
      using Cons.prems(2,3,4) by (auto simp: sweep_entry_def Let_def ctxErr_def)
    then show ?thesis using Cons.prems(1,3) by simp
  next
    case False
    then have n: "conn (heap s (snd x)) \<noteq> Some c" using Cons.prems(6) by simp
    have "map_of (entries ?s1) k = Some e"
      using sweep_entry_entries [of now x s] False Cons.prems(1) by auto
    moreover have "c \<notin> cancelled ?s1"
      using n Cons.prems(3)
      by (auto simp: sweep_entry_def Let_def CloseWithError_def split: option.splits if_splits)
    ultimately show ?thesis by simp
  qed
  have "map_of (entries (fold (sweep_entry now) xs ?s1)) k = Some e
         \<and> c \<notin> cancelled (fold (sweep_entry now) xs ?s1)"
  proof (rule Cons.IH)
    show "map_of (entries ?s1) k = Some e" using s1 by simp
    show "conn (heap ?s1 e) = Some c" using Cons.prems(2) by (simp add: sweep_entry_fields)
    show "c \<notin> cancelled ?s1" using s1 by simp
    show "\<not> (0 < maxAge ?s1 \<and> maxAge ?s1 < Time_Sub now (createdAt (heap ?s1 e)))"
      using Cons.prems(4) by (simp add: sweep_entry_fields)
    show "\<forall>kv \<in> set xs. fst kv = k \<longrightarrow> snd kv = e" using Cons.prems(5) by simp
    show "\<forall>kv \<in> set xs. fst kv \<noteq> k \<longrightarrow> conn (heap ?s1 (snd kv)) \<noteq> Some c"
      using Cons.prems(6) by (simp add: sweep_entry_fields)
  qed
  then show ?case by simp
qed

lemma map_of_None_keys: "(map_of m k = None) = (k \<notin> fst ` set m)"
  by (simp add: map_of_eq_None_iff)

lemma unshared_pool1:
  "conns_unshared pool1" "conns_unshared pool1_dead" "conns_unshared pool_aged"
  by (simp_all add: conns_unshared_def pool_defs pool0_def)

text \<open>
  Claim C7 says that age eviction applies whenever \<open>maxAge\<close> is nonzero. The sweep
  tests \<^verbatim>\<open>p.maxAge > 0\<close>: with \<open>maxAge = - 1\<close> a live entry of age 100 exceeds \<open>maxAge\<close>
  and the sweep keeps it and closes nothing.
\<close>

theorem sweep_negative_maxAge_keeps:
  "maxAge pool_negative_age \<noteq> 0
   \<and> getAliveConn pool_negative_age (heap pool_negative_age 0) = Some 7
   \<and> maxAge pool_negative_age
       < Time_Sub (clock pool_negative_age) (createdAt (heap pool_negative_age 0))
   \<and> entries pool_negative_age = [(''10.0.0.2:7946'', 0)]
   \<and> entries (sweep pool_negative_age) = [(''10.0.0.2:7946'', 0)]
   \<and> closeLog (sweep pool_negative_age) = []"
  by (simp add: sweep_def sweep_entry_def Time_Sub_def pool_defs eval_defs)

text \<open>
  Claim C7, amended. On a well-formed pool in which no connection is shared, one sweep
  pass, for the entry \<open>e\<close> of address \<open>k\<close>: removes it when its connection is nil or
  its session reports an error; when \<open>maxAge\<close> is positive and the entry's age exceeds
  it, closes its connection with the reason \<^verbatim>\<open>max connection age exceeded\<close> and removes
  it; otherwise leaves the address bound to the same, unchanged entry and the connection
  open. An address without an entry stays without one.
\<close>

theorem sweep_pass:
  assumes "wf_pool s" "conns_unshared s" "map_of (entries s) k = Some e"
  shows "(getAliveConn s (heap s e) = None \<longrightarrow> map_of (entries (sweep s)) k = None)
       \<and> (\<forall>c. getAliveConn s (heap s e) = Some c \<and> 0 < maxAge s
              \<and> maxAge s < Time_Sub (clock s) (createdAt (heap s e)) \<longrightarrow>
            map_of (entries (sweep s)) k = None
            \<and> (c, ''max connection age exceeded'') \<in> set (closeLog (sweep s))
            \<and> c \<in> cancelled (sweep s))
       \<and> (\<forall>c. getAliveConn s (heap s e) = Some c
              \<and> \<not> (0 < maxAge s \<and> maxAge s < Time_Sub (clock s) (createdAt (heap s e))) \<longrightarrow>
            map_of (entries (sweep s)) k = Some e \<and> heap (sweep s) e = heap s e
            \<and> c \<notin> cancelled (sweep s))
       \<and> (\<forall>k'. map_of (entries s) k' = None \<longrightarrow> map_of (entries (sweep s)) k' = None)"
proof -
  have mem: "(k, e) \<in> set (entries s)" using assms(3) by (rule map_of_SomeD)
  have dist: "distinct (map fst (entries s))" using assms(1) by (simp add: wf_pool_def)
  have a: "map_of (entries (sweep s)) k = None" if "getAliveConn s (heap s e) = None"
  proof -
    have "doomed (clock s) s e"
      using that by (auto simp: doomed_def getAliveConn_None_iff split: option.splits)
    then show ?thesis
      unfolding sweep_def map_of_None_keys by (rule fold_sweep_removes [OF mem])
  qed
  have b: "map_of (entries (sweep s)) k = None
            \<and> (c, ''max connection age exceeded'') \<in> set (closeLog (sweep s))
            \<and> c \<in> cancelled (sweep s)"
    if g: "getAliveConn s (heap s e) = Some c" and m: "0 < maxAge s"
      and o: "maxAge s < Time_Sub (clock s) (createdAt (heap s e))" for c
  proof -
    have cn: "conn (heap s e) = Some c" and al: "c \<notin> cancelled s"
      using g by (simp_all add: getAliveConn_Some_iff)
    have "doomed (clock s) s e" using cn m o by (simp add: doomed_def)
    then have r: "map_of (entries (sweep s)) k = None"
      unfolding sweep_def map_of_None_keys by (rule fold_sweep_removes [OF mem])
    have l: "(c, ''max connection age exceeded'') \<in> set (closeLog (sweep s))"
      using fold_sweep_closes [OF mem cn m o] al by (simp add: sweep_def)
    have "c \<in> cancelled (sweep s)"
      using fold_sweep_cancels [OF mem cn m o] by (simp add: sweep_def)
    then show ?thesis using r l by simp
  qed
  have c: "map_of (entries (sweep s)) k = Some e \<and> heap (sweep s) e = heap s e
            \<and> c \<notin> cancelled (sweep s)"
    if g: "getAliveConn s (heap s e) = Some c"
      and o: "\<not> (0 < maxAge s \<and> maxAge s < Time_Sub (clock s) (createdAt (heap s e)))" for c
  proof -
    have cn: "conn (heap s e) = Some c" and al: "c \<notin> cancelled s"
      using g by (simp_all add: getAliveConn_Some_iff)
    have one: "\<forall>kv \<in> set (entries s). fst kv = k \<longrightarrow> snd kv = e"
    proof (intro ballI impI)
      fix kv assume kv: "kv \<in> set (entries s)" "fst kv = k"
      have "(k, snd kv) \<in> set (entries s)" using kv by (metis prod.collapse)
      then have "map_of (entries s) k = Some (snd kv)"
        using dist by (simp add: map_of_is_SomeI)
      then show "snd kv = e" using assms(3) by simp
    qed
    have oth: "\<forall>kv \<in> set (entries s). fst kv \<noteq> k \<longrightarrow> conn (heap s (snd kv)) \<noteq> Some c"
    proof (intro ballI impI)
      fix kv assume kv: "kv \<in> set (entries s)" "fst kv \<noteq> k"
      have "conn (heap s (snd (k, e))) = None
            \<or> conn (heap s (snd (k, e))) \<noteq> conn (heap s (snd kv))"
        using assms(2) mem kv unfolding conns_unshared_def by (metis fst_conv)
      then show "conn (heap s (snd kv)) \<noteq> Some c" using cn by auto
    qed
    show ?thesis
      using fold_sweep_keeps [OF assms(3) cn al o one oth] sweep_heap [of s]
      by (simp add: sweep_def)
  qed
  have d: "map_of (entries (sweep s)) k' = None" if "map_of (entries s) k' = None" for k'
    using that fold_sweep_key_gone [of k' s "clock s" "entries s"]
    by (simp add: sweep_def map_of_None_keys)
  show ?thesis using a b c d by blast
qed

theorem sweep_pass_witness:
  "wf_pool pool_aged \<and> conns_unshared pool_aged
   \<and> map_of (entries pool_aged) ''10.0.0.2:7946'' = Some 0
   \<and> getAliveConn pool_aged (heap pool_aged 0) = Some 7
   \<and> 0 < maxAge pool_aged
   \<and> maxAge pool_aged < Time_Sub (clock pool_aged) (createdAt (heap pool_aged 0))
   \<and> map_of (entries (sweep pool_aged)) ''10.0.0.2:7946'' = None
   \<and> (7, ''max connection age exceeded'') \<in> set (closeLog (sweep pool_aged))
   \<and> getAliveConn pool1_dead (heap pool1_dead 0) = None
   \<and> map_of (entries (sweep pool1_dead)) ''10.0.0.2:7946'' = None
   \<and> getAliveConn pool1 (heap pool1 0) = Some 7
   \<and> map_of (entries (sweep pool1)) ''10.0.0.2:7946'' = Some 0"
proof -
  have m: "map_of (entries pool_aged) ''10.0.0.2:7946'' = Some 0"
    "map_of (entries pool1_dead) ''10.0.0.2:7946'' = Some 0"
    "map_of (entries pool1) ''10.0.0.2:7946'' = Some 0"
    by (simp_all add: pool_defs pool0_def)
  have h: "getAliveConn pool_aged (heap pool_aged 0) = Some 7 \<and> 0 < maxAge pool_aged
     \<and> maxAge pool_aged < Time_Sub (clock pool_aged) (createdAt (heap pool_aged 0))"
    "getAliveConn pool1_dead (heap pool1_dead 0) = None"
    "getAliveConn pool1 (heap pool1 0) = Some 7
     \<and> \<not> (0 < maxAge pool1 \<and> maxAge pool1 < Time_Sub (clock pool1) (createdAt (heap pool1 0)))"
    by (simp_all add: pool_defs pool0_def getAliveConn_def ctxErr_def Time_Sub_def)
  have a: "map_of (entries (sweep pool_aged)) ''10.0.0.2:7946'' = None
           \<and> (7, ''max connection age exceeded'') \<in> set (closeLog (sweep pool_aged))"
    using sweep_pass [OF wf_pool1(3) unshared_pool1(3) m(1)] h(1) by blast
  have b: "map_of (entries (sweep pool1_dead)) ''10.0.0.2:7946'' = None"
    using sweep_pass [OF wf_pool1(2) unshared_pool1(2) m(2)] h(2) by blast
  have c: "map_of (entries (sweep pool1)) ''10.0.0.2:7946'' = Some 0"
    using sweep_pass [OF wf_pool1(1) unshared_pool1(1) m(3)] h(3) by blast
  show ?thesis
    using a b c m h wf_pool1 unshared_pool1 by simp
qed

subsection \<open>Entries without a connection\<close>

text \<open>
  Which operations keep every entry bound to a connection, and what a failed
  \<^verbatim>\<open>GetOrDial\<close> leaves behind.
\<close>

lemma no_empty_entry_GetConnection:
  "no_empty_entry s \<Longrightarrow> no_empty_entry (snd (GetConnection addr s))"
  using set_delete_subset [of addr "entries s"]
  by (auto simp: no_empty_entry_def GetConnection_def split: option.splits)

lemma no_empty_entry_CloseConnection:
  "no_empty_entry s \<Longrightarrow> no_empty_entry (CloseConnection addr s)"
  using set_delete_subset [of addr "entries s"]
  by (auto simp: no_empty_entry_def CloseConnection_def CloseWithError_def Let_def
      split: option.splits)

lemma no_empty_entry_sweep: "no_empty_entry s \<Longrightarrow> no_empty_entry (sweep s)"
  using sweep_subset [of s] by (auto simp: no_empty_entry_def sweep_heap)

lemma sweep_no_empty_entry: "no_empty_entry (sweep s)"
  unfolding no_empty_entry_def
proof
  fix kv assume k: "kv \<in> set (entries (sweep s))"
  then have m: "(fst kv, snd kv) \<in> set (entries s)" using sweep_subset [of s] by auto
  show "conn (heap (sweep s) (snd kv)) \<noteq> None"
  proof
    assume "conn (heap (sweep s) (snd kv)) = None"
    then have "doomed (clock s) s (snd kv)" by (simp add: doomed_def sweep_heap)
    then have "fst kv \<notin> fst ` set (entries (sweep s))"
      unfolding sweep_def by (rule fold_sweep_removes [OF m])
    then show False using k by auto
  qed
qed

lemma no_empty_entry_AddInbound:
  "no_empty_entry s \<Longrightarrow> no_empty_entry (AddInbound ev c s)"
  using set_update_subset [of "connRemoteAddr ev c" "nextEntry s" "entries s"]
  by (auto simp: no_empty_entry_def AddInbound_def Let_def newPoolEntry_def setConn_def
      LoadOrStore_def split: option.splits)

lemma GetConnection_None:
  "GetConnection addr s = (None, s1) \<Longrightarrow>
   map_of (entries s1) addr = None \<and> set (entries s1) \<subseteq> set (entries s) \<and> heap s1 = heap s
   \<and> nextEntry s1 = nextEntry s"
  using set_delete_subset [of addr "entries s"]
  by (auto simp: GetConnection_def delete_conv' split: option.splits)

lemma GetConnection_Some:
  "GetConnection addr s = (Some c, s1) \<Longrightarrow> s1 = s"
  by (auto simp: GetConnection_def split: option.splits)

lemma GetOrDial_miss:
  assumes "GetConnection addr s = (None, s1)"
  shows "GetOrDial ev cx addr s =
     (let s3 = (snd (newPoolEntry s1))\<lparr>entries := AList.update addr (nextEntry s1) (entries s1)\<rparr>
      in case resolveUDPAddr ev addr of
           Inl err \<Rightarrow> (Inl err, s3)
         | Inr udp \<Rightarrow>
             (case dial ev cx udp s3 of
                (Inl err, s4) \<Rightarrow> (Inl err, s4)
              | (Inr c, s4) \<Rightarrow> (Inr c, onNewConn c (setConn (nextEntry s1) c s4))))"
proof -
  have m: "map_of (entries s1) addr = None" using GetConnection_None [OF assms] by simp
  show ?thesis
    using m by (simp add: GetOrDial_def assms Let_def newPoolEntry_def LoadOrStore_def
        getAliveConn_def)
qed

lemma dial_fields:
  "dial ev cx udp s = (r, s4) \<Longrightarrow>
   entries s4 = entries s \<and> heap s4 = heap s \<and> nextEntry s4 = nextEntry s
   \<and> cancelled s4 = cancelled s \<and> closeLog s4 = closeLog s"
  by (auto simp: dial_def Let_def split: prod.splits)

lemma onNewConn_fields:
  "entries (onNewConn c s) = entries s" "heap (onNewConn c s) = heap s"
  "nextEntry (onNewConn c s) = nextEntry s" "cancelled (onNewConn c s) = cancelled s"
  "closeLog (onNewConn c s) = closeLog s" "dialLog (onNewConn c s) = dialLog s"
  "clock (onNewConn c s) = clock s"
  by (simp_all add: onNewConn_def)

lemma no_empty_entry_GetOrDial_ok:
  assumes inv: "no_empty_entry s" and ok: "GetOrDial ev cx addr s = (Inr c, s')"
  shows "no_empty_entry s'"
proof (cases "GetConnection addr s")
  case (Pair r s1)
  show ?thesis
  proof (cases r)
    case (Some c0)
    then have "s1 = s" using GetConnection_Some Pair by blast
    then have "s' = s" using ok Pair Some by (simp add: GetOrDial_def)
    then show ?thesis using inv by simp
  next
    case None
    note g = Pair [unfolded None]
    have sub: "set (entries s1) \<subseteq> set (entries s)" and h: "heap s1 = heap s"
      using GetConnection_None [OF g] by simp_all
    obtain udp where u: "resolveUDPAddr ev addr = Inr udp"
      using ok by (cases "resolveUDPAddr ev addr") (auto simp: GetOrDial_miss [OF g] Let_def)
    define s3 where
      "s3 = (snd (newPoolEntry s1))\<lparr>entries := AList.update addr (nextEntry s1) (entries s1)\<rparr>"
    obtain s4 where d: "dial ev cx udp s3 = (Inr c, s4)"
      and e: "s' = onNewConn c (setConn (nextEntry s1) c s4)"
      using ok u unfolding GetOrDial_miss [OF g] Let_def s3_def [symmetric]
      by (cases "dial ev cx udp s3") (auto split: sum.splits)
    have e4: "entries s4 = AList.update addr (nextEntry s1) (entries s1)"
      and h4: "heap s4 = (heap s)(nextEntry s1 := \<lparr>mu = False, conn = None, createdAt = 0\<rparr>)"
      using dial_fields [OF d] h by (simp_all add: s3_def newPoolEntry_def)
    have "conn (heap s' (snd kv)) \<noteq> None" if k: "kv \<in> set (entries s')" for kv
    proof -
      have "kv \<in> set (AList.update addr (nextEntry s1) (entries s1))"
        using k by (simp add: e onNewConn_fields setConn_def e4)
      then have "kv = (addr, nextEntry s1) \<or> kv \<in> set (entries s)"
        using sub set_update_subset [of addr "nextEntry s1" "entries s1"] by blast
      then show ?thesis
      proof
        assume "kv = (addr, nextEntry s1)"
        then show ?thesis by (simp add: e onNewConn_fields setConn_def)
      next
        assume "kv \<in> set (entries s)"
        then have "conn (heap s (snd kv)) \<noteq> None" using inv by (simp add: no_empty_entry_def)
        then show ?thesis by (simp add: e onNewConn_fields setConn_def h4)
      qed
    qed
    then show ?thesis by (simp add: no_empty_entry_def)
  qed
qed

lemma GetOrDial_failed_entry:
  assumes "GetOrDial ev cx addr s = (Inl err, s')"
  shows "lookupConn s' addr = Some None"
proof (cases "GetConnection addr s")
  case (Pair r s1)
  show ?thesis
  proof (cases r)
    case (Some c0)
    then show ?thesis using assms Pair by (simp add: GetOrDial_def)
  next
    case None
    note g = Pair [unfolded None]
    define s3 where
      "s3 = (snd (newPoolEntry s1))\<lparr>entries := AList.update addr (nextEntry s1) (entries s1)\<rparr>"
    have l3: "lookupConn s3 addr = Some None"
      by (simp add: s3_def lookupConn_def newPoolEntry_def update_conv')
    show ?thesis
    proof (cases "resolveUDPAddr ev addr")
      case (Inl e0)
      then have "s' = s3" using assms by (simp add: GetOrDial_miss [OF g] Let_def s3_def)
      then show ?thesis using l3 by simp
    next
      case (Inr udp)
      obtain r4 s4 where d: "dial ev cx udp s3 = (r4, s4)" by (cases "dial ev cx udp s3") auto
      have "s' = s4"
        using assms Inr d unfolding GetOrDial_miss [OF g] Let_def s3_def [symmetric]
        by (cases r4) auto
      then show ?thesis using l3 dial_fields [OF d] by (simp add: lookupConn_def)
    qed
  qed
qed

lemma GetOrDial_failed_others:
  assumes inv: "no_empty_entry s" and wf: "wf_pool s"
      and f: "GetOrDial ev cx addr s = (Inl err, s')"
  shows "\<forall>kv \<in> set (entries s'). fst kv \<noteq> addr \<longrightarrow> conn (heap s' (snd kv)) \<noteq> None"
proof (cases "GetConnection addr s")
  case (Pair r s1)
  show ?thesis
  proof (cases r)
    case (Some c0)
    then show ?thesis using f Pair by (simp add: GetOrDial_def)
  next
    case None
    note g = Pair [unfolded None]
    have sub: "set (entries s1) \<subseteq> set (entries s)" and h: "heap s1 = heap s"
      and n: "nextEntry s1 = nextEntry s"
      using GetConnection_None [OF g] by simp_all
    define s3 where
      "s3 = (snd (newPoolEntry s1))\<lparr>entries := AList.update addr (nextEntry s1) (entries s1)\<rparr>"
    have e': "entries s' = entries s3 \<and> heap s' = heap s3"
    proof (cases "resolveUDPAddr ev addr")
      case (Inl e0)
      then have "s' = s3" using f by (simp add: GetOrDial_miss [OF g] Let_def s3_def)
      then show ?thesis by simp
    next
      case (Inr udp)
      obtain r4 s4 where d: "dial ev cx udp s3 = (r4, s4)" by (cases "dial ev cx udp s3") auto
      have "s' = s4"
        using f Inr d unfolding GetOrDial_miss [OF g] Let_def s3_def [symmetric]
        by (cases r4) auto
      then show ?thesis using dial_fields [OF d] by simp
    qed
    show ?thesis
    proof (intro ballI impI)
      fix kv assume k: "kv \<in> set (entries s')" and ne: "fst kv \<noteq> addr"
      have "kv \<in> set (AList.update addr (nextEntry s1) (entries s1))"
        using k e' by (simp add: s3_def newPoolEntry_def)
      then have "kv = (addr, nextEntry s1) \<or> kv \<in> set (entries s)"
        using sub set_update_subset [of addr "nextEntry s1" "entries s1"] by blast
      then have m: "kv \<in> set (entries s)" using ne by auto
      then have "snd kv < nextEntry s" using wf by (simp add: wf_pool_def)
      moreover have "conn (heap s (snd kv)) \<noteq> None" using inv m by (simp add: no_empty_entry_def)
      ultimately show "conn (heap s' (snd kv)) \<noteq> None"
        using e' by (simp add: s3_def newPoolEntry_def h n)
    qed
  qed
qed

lemma GetConnection_evicts_empty:
  assumes "lookupConn s addr = Some None"
      and "\<forall>kv \<in> set (entries s). fst kv \<noteq> addr \<longrightarrow> conn (heap s (snd kv)) \<noteq> None"
  shows "fst (GetConnection addr s) = None \<and> no_empty_entry (snd (GetConnection addr s))"
proof -
  obtain e where e: "map_of (entries s) addr = Some e" "conn (heap s e) = None"
    using assms(1) by (auto simp: lookupConn_def)
  have "GetConnection addr s = (None, s\<lparr>entries := AList.delete addr (entries s)\<rparr>)"
    using e by (simp add: GetConnection_def getAliveConn_def)
  then show ?thesis
    using assms(2) by (auto simp: no_empty_entry_def AList.delete_eq)
qed

lemma no_empty_entry_pool1: "no_empty_entry pool1"
  by (simp add: no_empty_entry_def pool1_def pool0_def)

text \<open>
  Claim C6 says that no entry of the map is ever empty once an operation has returned.
  After a \<^verbatim>\<open>GetOrDial\<close> whose address resolution fails, or whose dial fails, the entry
  created for the address is in the map with a nil connection.
\<close>

theorem GetOrDial_failure_leaves_empty_entry:
  "no_empty_entry pool0
   \<and> fst (GetOrDial env_unresolvable ctx0 ''10.0.0.2:7946'' pool0) = Inl (Err ''no such host'')
   \<and> entries (snd (GetOrDial env_unresolvable ctx0 ''10.0.0.2:7946'' pool0)) =
       [(''10.0.0.2:7946'', 0)]
   \<and> conn (heap (snd (GetOrDial env_unresolvable ctx0 ''10.0.0.2:7946'' pool0)) 0) = None
   \<and> \<not> no_empty_entry (snd (GetOrDial env_unresolvable ctx0 ''10.0.0.2:7946'' pool0))
   \<and> fst (GetOrDial env_refused ctx0 ''10.0.0.2:7946'' pool0) = Inl (Err ''handshake timeout'')
   \<and> \<not> no_empty_entry (snd (GetOrDial env_refused ctx0 ''10.0.0.2:7946'' pool0))"
  by (simp add: no_empty_entry_def GetOrDial_def GetConnection_def env_unresolvable_def
      env_refused_def eval_defs)

subsection \<open>Well-formed pools\<close>

text \<open>
  Every pool operation keeps the pool well-formed, so every state reached from the empty
  pool is.
\<close>

lemma wf_pool_delete:
  "wf_pool s \<Longrightarrow> wf_pool (s\<lparr>entries := AList.delete k (entries s)\<rparr>)"
  using set_delete_subset [of k "entries s"]
  by (auto simp: wf_pool_def distinct_delete)

lemma wf_pool_GetConnection: "wf_pool s \<Longrightarrow> wf_pool (snd (GetConnection addr s))"
  by (auto simp: GetConnection_def wf_pool_delete split: option.splits)

lemma wf_pool_CloseConnection: "wf_pool s \<Longrightarrow> wf_pool (CloseConnection addr s)"
  using wf_pool_delete [of s addr]
  by (auto simp: CloseConnection_def CloseWithError_def Let_def wf_pool_def split: option.splits)

lemma wf_pool_store:
  assumes "wf_pool s"
  shows "wf_pool ((snd (newPoolEntry s))\<lparr>entries := AList.update k (nextEntry s) (entries s)\<rparr>)"
proof -
  have "snd kv < Suc (nextEntry s)"
    if "kv \<in> set (AList.update k (nextEntry s) (entries s))" for kv
  proof -
    have "kv = (k, nextEntry s) \<or> kv \<in> set (entries s)"
      using that set_update_subset [of k "nextEntry s" "entries s"] by blast
    then show ?thesis using assms by (auto simp: wf_pool_def less_Suc_eq)
  qed
  then show ?thesis
    using assms by (auto simp: wf_pool_def newPoolEntry_def distinct_update)
qed

lemma wf_pool_AddInbound: "wf_pool s \<Longrightarrow> wf_pool (AddInbound ev c s)"
  using wf_pool_store [of s "connRemoteAddr ev c"]
  by (auto simp: AddInbound_def Let_def newPoolEntry_def setConn_def LoadOrStore_def
      wf_pool_def less_Suc_eq split: option.splits)

lemma wf_pool_sweep_entry: "wf_pool s \<Longrightarrow> wf_pool (sweep_entry now kv s)"
  using wf_pool_delete [of s "fst kv"]
  by (auto simp: sweep_entry_def Let_def CloseWithError_def wf_pool_def split: option.splits)

lemma wf_pool_sweep: "wf_pool s \<Longrightarrow> wf_pool (sweep s)"
proof -
  have "wf_pool s \<Longrightarrow> wf_pool (fold (sweep_entry now) xs s)" for now xs
    by (induction xs arbitrary: s) (simp_all add: wf_pool_sweep_entry)
  then show "wf_pool s \<Longrightarrow> wf_pool (sweep s)" by (simp add: sweep_def)
qed

lemma wf_pool_GetOrDial: 
  assumes "wf_pool s" 
  shows "wf_pool (snd (GetOrDial ev cx addr s))"
proof (cases "GetConnection addr s")
  case (Pair r s1)
  have w1: "wf_pool s1" using wf_pool_GetConnection [OF assms, of addr] Pair by simp
  show ?thesis
  proof (cases r)
    case (Some c0)
    then show ?thesis using Pair w1 by (simp add: GetOrDial_def)
  next
    case None
    note g = Pair [unfolded None]
    define s3 where
      "s3 = (snd (newPoolEntry s1))\<lparr>entries := AList.update addr (nextEntry s1) (entries s1)\<rparr>"
    have w3: "wf_pool s3" unfolding s3_def by (rule wf_pool_store [OF w1])
    show ?thesis
    proof (cases "resolveUDPAddr ev addr")
      case (Inl e0)
      then show ?thesis using w3 by (simp add: GetOrDial_miss [OF g] Let_def s3_def [symmetric])
    next
      case (Inr udp)
      obtain r4 s4 where d: "dial ev cx udp s3 = (r4, s4)" by (cases "dial ev cx udp s3") auto
      have w4: "wf_pool s4" using dial_fields [OF d] w3 by (simp add: wf_pool_def)
      show ?thesis
        using Inr d w4 unfolding GetOrDial_miss [OF g] Let_def s3_def [symmetric]
        by (cases r4) (simp_all add: wf_pool_def onNewConn_fields setConn_def)
    qed
  qed
qed

subsection \<open>After a failed dial\<close>

text \<open>
  What the pool operations do to the empty entry a failed \<^verbatim>\<open>GetOrDial\<close> leaves.
\<close>

lemma lookupConn_Some_NoneD:
  assumes "lookupConn s addr = Some None"
  obtains e where "map_of (entries s) addr = Some e" "conn (heap s e) = None"
  using assms by (auto simp: lookupConn_def)

lemma GetConnection_removes_empty:
  assumes "lookupConn s addr = Some None"
  shows "lookupConn (snd (GetConnection addr s)) addr = None"
proof -
  obtain e where e: "map_of (entries s) addr = Some e" "conn (heap s e) = None"
    using assms by (rule lookupConn_Some_NoneD)
  show ?thesis
    using e by (simp add: GetConnection_def getAliveConn_def lookupConn_def delete_conv')
qed

lemma CloseConnection_removes_empty:
  assumes "lookupConn s addr = Some None"
      and "\<forall>kv \<in> set (entries s). fst kv \<noteq> addr \<longrightarrow> conn (heap s (snd kv)) \<noteq> None"
  shows "no_empty_entry (CloseConnection addr s)
         \<and> lookupConn (CloseConnection addr s) addr = None"
proof -
  obtain e where e: "map_of (entries s) addr = Some e" "conn (heap s e) = None"
    using assms(1) by (rule lookupConn_Some_NoneD)
  have "CloseConnection addr s = s\<lparr>entries := AList.delete addr (entries s)\<rparr>"
    using e by (simp add: CloseConnection_def Let_def)
  then have c: "CloseConnection addr s = s\<lparr>entries := AList.delete addr (entries s)\<rparr>"
    by simp
  have "lookupConn (CloseConnection addr s) addr = None"
    by (simp add: c lookupConn_def delete_conv')
  moreover have "no_empty_entry (CloseConnection addr s)"
    using assms(2) by (auto simp: c no_empty_entry_def AList.delete_eq)
  ultimately show ?thesis by simp
qed

lemma sweep_removes_empty:
  assumes "lookupConn s addr = Some None"
  shows "lookupConn (sweep s) addr = None"
proof -
  obtain e where e: "map_of (entries s) addr = Some e" "conn (heap s e) = None"
    using assms by (rule lookupConn_Some_NoneD)
  have m: "(addr, e) \<in> set (entries s)" using e(1) by (rule map_of_SomeD)
  have "doomed (clock s) s e" using e(2) by (simp add: doomed_def)
  then have "addr \<notin> fst ` set (entries (sweep s))"
    unfolding sweep_def by (rule fold_sweep_removes [OF m])
  then have "map_of (entries (sweep s)) addr = None" by (simp add: map_of_None_keys)
  then show ?thesis by (simp add: lookupConn_def)
qed

lemma AddInbound_fills_empty:
  assumes wf: "wf_pool s" and l: "lookupConn s addr = Some None"
      and oh: "\<forall>kv \<in> set (entries s). fst kv \<noteq> addr \<longrightarrow> conn (heap s (snd kv)) \<noteq> None"
      and r: "connRemoteAddr ev c = addr"
  shows "no_empty_entry (AddInbound ev c s) \<and> lookupConn (AddInbound ev c s) addr = Some (Some c)"
proof -
  obtain e where e: "map_of (entries s) addr = Some e" "conn (heap s e) = None"
    using l by (rule lookupConn_Some_NoneD)
  have p: "e < nextEntry s" by (rule wf_pool_ptr [OF wf e(1)])
  have g: "getAliveConn s (heap s e) = None" using e(2) by (simp add: getAliveConn_None_iff)
  have a: "AddInbound ev c s = setConn e c (setConn (nextEntry s) c (snd (newPoolEntry s)))"
    using AddInbound_dead [of s ev c e] e(1) p g r by simp
  have dist: "distinct (map fst (entries s))" using wf by (simp add: wf_pool_def)
  have "conn (heap (AddInbound ev c s) (snd kv)) \<noteq> None"
    if k: "kv \<in> set (entries (AddInbound ev c s))" for kv
  proof -
    have m: "kv \<in> set (entries s)" using k by (simp add: a setConn_def newPoolEntry_def)
    show ?thesis
    proof (cases "fst kv = addr")
      case True
      have "(addr, snd kv) \<in> set (entries s)" using m True by (metis prod.collapse)
      then have "map_of (entries s) addr = Some (snd kv)" using dist by (simp add: map_of_is_SomeI)
      then have "snd kv = e" using e(1) by simp
      then show ?thesis by (simp add: a setConn_def newPoolEntry_def)
    next
      case False
      then have "conn (heap s (snd kv)) \<noteq> None" using oh m by simp
      then show ?thesis by (simp add: a setConn_def newPoolEntry_def)
    qed
  qed
  moreover have "lookupConn (AddInbound ev c s) addr = Some (Some c)"
    using e(1) by (simp add: a lookupConn_def setConn_def newPoolEntry_def)
  ultimately show ?thesis by (simp add: no_empty_entry_def)
qed

lemma GetOrDial_ok_after_empty:
  assumes l: "lookupConn s addr = Some None"
      and oh: "\<forall>kv \<in> set (entries s). fst kv \<noteq> addr \<longrightarrow> conn (heap s (snd kv)) \<noteq> None"
      and ok: "GetOrDial ev cx addr s = (Inr c, s')"
  shows "no_empty_entry s' \<and> lookupConn s' addr = Some (Some c)"
proof -
  obtain e0 where e0: "map_of (entries s) addr = Some e0" "conn (heap s e0) = None"
    using l by (rule lookupConn_Some_NoneD)
  define s1 where "s1 = s\<lparr>entries := AList.delete addr (entries s)\<rparr>"
  have g: "GetConnection addr s = (None, s1)"
    using e0 by (simp add: GetConnection_def getAliveConn_def s1_def)
  have sub: "set (entries s1) \<subseteq> set (entries s)" and h: "heap s1 = heap s"
    and m1: "map_of (entries s1) addr = None"
    using GetConnection_None [OF g] by simp_all
  obtain udp where u: "resolveUDPAddr ev addr = Inr udp"
    using ok by (cases "resolveUDPAddr ev addr") (auto simp: GetOrDial_miss [OF g] Let_def)
  define s3 where
    "s3 = (snd (newPoolEntry s1))\<lparr>entries := AList.update addr (nextEntry s1) (entries s1)\<rparr>"
  obtain s4 where d: "dial ev cx udp s3 = (Inr c, s4)"
    and e: "s' = onNewConn c (setConn (nextEntry s1) c s4)"
    using ok u unfolding GetOrDial_miss [OF g] Let_def s3_def [symmetric]
    by (cases "dial ev cx udp s3") (auto split: sum.splits)
  have e4: "entries s4 = AList.update addr (nextEntry s1) (entries s1)"
    and h4: "heap s4 = (heap s)(nextEntry s1 := \<lparr>mu = False, conn = None, createdAt = 0\<rparr>)"
    using dial_fields [OF d] h by (simp_all add: s3_def newPoolEntry_def)
  have "conn (heap s' (snd kv)) \<noteq> None" if k: "kv \<in> set (entries s')" for kv
  proof -
    have "kv \<in> set (AList.update addr (nextEntry s1) (entries s1))"
      using k by (simp add: e onNewConn_fields setConn_def e4)
    then have "kv = (addr, nextEntry s1) \<or> kv \<in> set (entries s1)"
      using set_update_subset [of addr "nextEntry s1" "entries s1"] by blast
    then show ?thesis
    proof
      assume "kv = (addr, nextEntry s1)"
      then show ?thesis by (simp add: e onNewConn_fields setConn_def)
    next
      assume a: "kv \<in> set (entries s1)"
      then have "fst kv \<noteq> addr" using m1 by (auto simp: map_of_None_keys)
      moreover have "kv \<in> set (entries s)" using a sub by blast
      ultimately have "conn (heap s (snd kv)) \<noteq> None" using oh by simp
      then show ?thesis by (simp add: e onNewConn_fields setConn_def h4)
    qed
  qed
  moreover have "lookupConn s' addr = Some (Some c)"
    by (simp add: lookupConn_def e onNewConn_fields setConn_def e4 update_conv')
  ultimately show ?thesis by (simp add: no_empty_entry_def)
qed

lemma GetOrDial_failed_keeps_others:
  assumes oh: "\<forall>kv \<in> set (entries s). fst kv \<noteq> addr \<longrightarrow> conn (heap s (snd kv)) \<noteq> None"
      and wf: "wf_pool s"
      and f: "GetOrDial ev cx addr s = (Inl err, s')"
  shows "\<forall>kv \<in> set (entries s'). fst kv \<noteq> addr \<longrightarrow> conn (heap s' (snd kv)) \<noteq> None"
proof (cases "GetConnection addr s")
  case (Pair r s1)
  show ?thesis
  proof (cases r)
    case (Some c0)
    then show ?thesis using f Pair by (simp add: GetOrDial_def)
  next
    case None
    note g = Pair [unfolded None]
    have sub: "set (entries s1) \<subseteq> set (entries s)" and h: "heap s1 = heap s"
      and n: "nextEntry s1 = nextEntry s"
      using GetConnection_None [OF g] by simp_all
    define s3 where
      "s3 = (snd (newPoolEntry s1))\<lparr>entries := AList.update addr (nextEntry s1) (entries s1)\<rparr>"
    have e': "entries s' = entries s3 \<and> heap s' = heap s3"
    proof (cases "resolveUDPAddr ev addr")
      case (Inl e0)
      then have "s' = s3" using f by (simp add: GetOrDial_miss [OF g] Let_def s3_def)
      then show ?thesis by simp
    next
      case (Inr udp)
      obtain r4 s4 where d: "dial ev cx udp s3 = (r4, s4)" by (cases "dial ev cx udp s3") auto
      have "s' = s4"
        using f Inr d unfolding GetOrDial_miss [OF g] Let_def s3_def [symmetric]
        by (cases r4) auto
      then show ?thesis using dial_fields [OF d] by simp
    qed
    show ?thesis
    proof (intro ballI impI)
      fix kv assume k: "kv \<in> set (entries s')" and ne: "fst kv \<noteq> addr"
      have "kv \<in> set (AList.update addr (nextEntry s1) (entries s1))"
        using k e' by (simp add: s3_def newPoolEntry_def)
      then have "kv = (addr, nextEntry s1) \<or> kv \<in> set (entries s)"
        using sub set_update_subset [of addr "nextEntry s1" "entries s1"] by blast
      then have m: "kv \<in> set (entries s)" using ne by auto
      then have "snd kv < nextEntry s" using wf by (simp add: wf_pool_def)
      moreover have "conn (heap s (snd kv)) \<noteq> None" using oh m ne by simp
      ultimately show "conn (heap s' (snd kv)) \<noteq> None"
        using e' by (simp add: s3_def newPoolEntry_def h n)
    qed
  qed
qed

text \<open>
  Claim C6, amended. On a well-formed pool in which every entry holds a connection,
  \<^verbatim>\<open>GetConnection\<close>, \<^verbatim>\<open>CloseConnection\<close>, \<^verbatim>\<open>AddInbound\<close>, \<^verbatim>\<open>sweep\<close> and a \<^verbatim>\<open>GetOrDial\<close> that
  returns a connection leave every entry holding a connection. A \<^verbatim>\<open>GetOrDial\<close> that
  returns an error leaves, for its address, an entry whose connection is nil, and every
  other entry holding a connection. From that state, \<^verbatim>\<open>GetConnection\<close> and
  \<^verbatim>\<open>CloseConnection\<close> for that address and \<^verbatim>\<open>sweep\<close> remove the empty entry, and
  \<^verbatim>\<open>AddInbound\<close> of a connection from that address and a \<^verbatim>\<open>GetOrDial\<close> for that address
  that returns a connection bind that connection to the address; after each of these
  every entry holds a connection again. A \<^verbatim>\<open>GetOrDial\<close> for that address that fails again
  leaves the entry empty and every other entry holding a connection.
\<close>

theorem no_empty_entry_preserved:
  assumes "no_empty_entry s" "wf_pool s"
  shows "no_empty_entry (snd (GetConnection addr s))
       \<and> no_empty_entry (CloseConnection addr s)
       \<and> no_empty_entry (AddInbound ev c s)
       \<and> no_empty_entry (sweep s)
       \<and> (\<forall>c' s'. GetOrDial ev cx addr s = (Inr c', s') \<longrightarrow> no_empty_entry s')
       \<and> (\<forall>err s'. GetOrDial ev cx addr s = (Inl err, s') \<longrightarrow>
            lookupConn s' addr = Some None
            \<and> (\<forall>kv \<in> set (entries s'). fst kv \<noteq> addr \<longrightarrow> conn (heap s' (snd kv)) \<noteq> None)
            \<and> no_empty_entry (snd (GetConnection addr s'))
            \<and> no_empty_entry (sweep s')
            \<and> lookupConn (snd (GetConnection addr s')) addr = None
            \<and> lookupConn (sweep s') addr = None
            \<and> no_empty_entry (CloseConnection addr s')
            \<and> lookupConn (CloseConnection addr s') addr = None
            \<and> (\<forall>c2. connRemoteAddr ev2 c2 = addr \<longrightarrow>
                  no_empty_entry (AddInbound ev2 c2 s')
                  \<and> lookupConn (AddInbound ev2 c2 s') addr = Some (Some c2))
            \<and> (\<forall>c2 s2. GetOrDial ev2 cx2 addr s' = (Inr c2, s2) \<longrightarrow>
                  no_empty_entry s2 \<and> lookupConn s2 addr = Some (Some c2))
            \<and> (\<forall>err2 s2. GetOrDial ev2 cx2 addr s' = (Inl err2, s2) \<longrightarrow>
                  lookupConn s2 addr = Some None
                  \<and> (\<forall>kv \<in> set (entries s2). fst kv \<noteq> addr \<longrightarrow>
                        conn (heap s2 (snd kv)) \<noteq> None)))"
proof -
  have f: "lookupConn s' addr = Some None
            \<and> (\<forall>kv \<in> set (entries s'). fst kv \<noteq> addr \<longrightarrow> conn (heap s' (snd kv)) \<noteq> None)
            \<and> no_empty_entry (snd (GetConnection addr s'))
            \<and> no_empty_entry (sweep s')
            \<and> lookupConn (snd (GetConnection addr s')) addr = None
            \<and> lookupConn (sweep s') addr = None
            \<and> no_empty_entry (CloseConnection addr s')
            \<and> lookupConn (CloseConnection addr s') addr = None
            \<and> (\<forall>c2. connRemoteAddr ev2 c2 = addr \<longrightarrow>
                  no_empty_entry (AddInbound ev2 c2 s')
                  \<and> lookupConn (AddInbound ev2 c2 s') addr = Some (Some c2))
            \<and> (\<forall>c2 s2. GetOrDial ev2 cx2 addr s' = (Inr c2, s2) \<longrightarrow>
                  no_empty_entry s2 \<and> lookupConn s2 addr = Some (Some c2))
            \<and> (\<forall>err2 s2. GetOrDial ev2 cx2 addr s' = (Inl err2, s2) \<longrightarrow>
                  lookupConn s2 addr = Some None
                  \<and> (\<forall>kv \<in> set (entries s2). fst kv \<noteq> addr \<longrightarrow>
                        conn (heap s2 (snd kv)) \<noteq> None))"
    if g: "GetOrDial ev cx addr s = (Inl err, s')" for err s'
  proof -
    note a = GetOrDial_failed_entry [OF g]
    note b = GetOrDial_failed_others [OF assms g]
    have w: "wf_pool s'" using wf_pool_GetOrDial [OF assms(2), of ev cx addr] g by simp
    have i: "no_empty_entry (AddInbound ev2 c2 s')
             \<and> lookupConn (AddInbound ev2 c2 s') addr = Some (Some c2)"
      if "connRemoteAddr ev2 c2 = addr" for c2
      by (rule AddInbound_fills_empty [OF w a b that])
    have j: "no_empty_entry s2 \<and> lookupConn s2 addr = Some (Some c2)"
      if "GetOrDial ev2 cx2 addr s' = (Inr c2, s2)" for c2 s2
      by (rule GetOrDial_ok_after_empty [OF a b that])
    have k: "lookupConn s2 addr = Some None
             \<and> (\<forall>kv \<in> set (entries s2). fst kv \<noteq> addr \<longrightarrow> conn (heap s2 (snd kv)) \<noteq> None)"
      if "GetOrDial ev2 cx2 addr s' = (Inl err2, s2)" for err2 s2
      using GetOrDial_failed_entry [OF that] GetOrDial_failed_keeps_others [OF b w that]
      by simp
    show ?thesis
      using a b GetConnection_evicts_empty [OF a b] sweep_no_empty_entry [of s']
        GetConnection_removes_empty [OF a] sweep_removes_empty [OF a]
        CloseConnection_removes_empty [OF a b] i j k
      by blast
  qed
  show ?thesis
    using no_empty_entry_GetConnection [OF assms(1), of addr]
      no_empty_entry_CloseConnection [OF assms(1), of addr]
      no_empty_entry_AddInbound [OF assms(1), of ev c]
      no_empty_entry_sweep [OF assms(1)]
      no_empty_entry_GetOrDial_ok [OF assms(1), of ev cx addr]
      f
    by blast
qed

theorem no_empty_entry_preserved_witness:
  "no_empty_entry pool1 \<and> wf_pool pool1
   \<and> no_empty_entry (snd (GetConnection ''10.0.0.2:7946'' pool1))
   \<and> no_empty_entry (CloseConnection ''10.0.0.2:7946'' pool1)
   \<and> no_empty_entry (AddInbound env_ok 9 pool1)
   \<and> no_empty_entry (sweep pool1)
   \<and> fst (GetOrDial env_ok ctx0 ''10.0.0.3:7946'' pool1) = Inr 0
   \<and> no_empty_entry (snd (GetOrDial env_ok ctx0 ''10.0.0.3:7946'' pool1))
   \<and> GetOrDial env_unresolvable ctx0 ''10.0.0.3:7946'' pool1 =
       (Inl (Err ''no such host''), pool_failed)
   \<and> lookupConn pool_failed ''10.0.0.3:7946'' = Some None
   \<and> lookupConn (snd (GetConnection ''10.0.0.3:7946'' pool_failed)) ''10.0.0.3:7946'' = None
   \<and> no_empty_entry (snd (GetConnection ''10.0.0.3:7946'' pool_failed))
   \<and> lookupConn (CloseConnection ''10.0.0.3:7946'' pool_failed) ''10.0.0.3:7946'' = None
   \<and> no_empty_entry (CloseConnection ''10.0.0.3:7946'' pool_failed)
   \<and> lookupConn (sweep pool_failed) ''10.0.0.3:7946'' = None
   \<and> no_empty_entry (sweep pool_failed)
   \<and> connRemoteAddr env_peer3 9 = ''10.0.0.3:7946''
   \<and> lookupConn (AddInbound env_peer3 9 pool_failed) ''10.0.0.3:7946'' = Some (Some 9)
   \<and> no_empty_entry (AddInbound env_peer3 9 pool_failed)
   \<and> fst (GetOrDial env_ok ctx0 ''10.0.0.3:7946'' pool_failed) = Inr 0
   \<and> lookupConn (snd (GetOrDial env_ok ctx0 ''10.0.0.3:7946'' pool_failed)) ''10.0.0.3:7946''
       = Some (Some 0)
   \<and> no_empty_entry (snd (GetOrDial env_ok ctx0 ''10.0.0.3:7946'' pool_failed))
   \<and> fst (GetOrDial env_unresolvable ctx0 ''10.0.0.3:7946'' pool_failed) =
       Inl (Err ''no such host'')
   \<and> lookupConn (snd (GetOrDial env_unresolvable ctx0 ''10.0.0.3:7946'' pool_failed))
        ''10.0.0.3:7946'' = Some None"
proof -
  note t = no_empty_entry_preserved [OF no_empty_entry_pool1 wf_pool1(1)]
  have a: "fst (GetOrDial env_ok ctx0 ''10.0.0.3:7946'' pool1) = Inr 0"
    by (simp add: GetOrDial_def GetConnection_def pool_defs eval_defs)
  have b: "fst (GetOrDial env_unresolvable ctx0 ''10.0.0.3:7946'' pool1) =
           Inl (Err ''no such host'')"
    by (simp add: GetOrDial_def GetConnection_def pool_defs env_unresolvable_def eval_defs)
  have e: "GetOrDial env_unresolvable ctx0 ''10.0.0.3:7946'' pool1 =
       (Inl (Err ''no such host''), pool_failed)"
    using b unfolding pool_failed_def by (metis prod.collapse)
  have a': "no_empty_entry (snd (GetOrDial env_ok ctx0 ''10.0.0.3:7946'' pool1))"
    using t [of "''10.0.0.3:7946''" env_ok 9 ctx0] a
    by (metis prod.collapse)
  have pf: "entries pool_failed = [(''10.0.0.2:7946'', 0), (''10.0.0.3:7946'', 1)]"
    "conn (heap pool_failed 0) = Some 7" "conn (heap pool_failed 1) = None"
    "cancelled pool_failed = {}" "nextEntry pool_failed = 2" "dialLog pool_failed = []"
    unfolding pool_failed_def
    by (simp_all add: GetOrDial_def GetConnection_def pool_defs env_unresolvable_def eval_defs)
  have a2: "fst (GetOrDial env_ok ctx0 ''10.0.0.3:7946'' pool_failed) = Inr 0"
    using pf
    by (simp add: GetOrDial_def GetConnection_def env_ok_def ctx0_def newPoolEntry_def
        LoadOrStore_def getAliveConn_def ctxErr_def dial_def onNewConn_def setConn_def Let_def)
  then have e2: "GetOrDial env_ok ctx0 ''10.0.0.3:7946'' pool_failed =
       (Inr 0, snd (GetOrDial env_ok ctx0 ''10.0.0.3:7946'' pool_failed))"
    by (metis prod.collapse)
  have b2: "fst (GetOrDial env_unresolvable ctx0 ''10.0.0.3:7946'' pool_failed) =
       Inl (Err ''no such host'')"
    using pf
    by (simp add: GetOrDial_def GetConnection_def env_unresolvable_def env_ok_def ctx0_def
        newPoolEntry_def LoadOrStore_def getAliveConn_def ctxErr_def Let_def)
  then have e3: "GetOrDial env_unresolvable ctx0 ''10.0.0.3:7946'' pool_failed =
       (Inl (Err ''no such host''), snd (GetOrDial env_unresolvable ctx0 ''10.0.0.3:7946'' pool_failed))"
    by (metis prod.collapse)
  have r: "connRemoteAddr env_peer3 9 = ''10.0.0.3:7946''" by (simp add: env_peer3_def)
  note f = t [of "''10.0.0.3:7946''" env_unresolvable 9 ctx0, THEN conjunct2, THEN conjunct2,
      THEN conjunct2, THEN conjunct2, THEN conjunct2, rule_format, OF e]
  note f1 = f [of env_peer3 ctx0]
  note f2 = f [of env_ok ctx0]
  note f3 = f [of env_unresolvable ctx0]
  have g1: "lookupConn pool_failed ''10.0.0.3:7946'' = Some None
     \<and> lookupConn (snd (GetConnection ''10.0.0.3:7946'' pool_failed)) ''10.0.0.3:7946'' = None
     \<and> no_empty_entry (snd (GetConnection ''10.0.0.3:7946'' pool_failed))
     \<and> lookupConn (CloseConnection ''10.0.0.3:7946'' pool_failed) ''10.0.0.3:7946'' = None
     \<and> no_empty_entry (CloseConnection ''10.0.0.3:7946'' pool_failed)
     \<and> lookupConn (sweep pool_failed) ''10.0.0.3:7946'' = None
     \<and> no_empty_entry (sweep pool_failed)"
    using f1 by blast
  have g2: "lookupConn (AddInbound env_peer3 9 pool_failed) ''10.0.0.3:7946'' = Some (Some 9)
     \<and> no_empty_entry (AddInbound env_peer3 9 pool_failed)"
    using f1 r by blast
  have g3: "lookupConn (snd (GetOrDial env_ok ctx0 ''10.0.0.3:7946'' pool_failed)) ''10.0.0.3:7946''
       = Some (Some 0)
     \<and> no_empty_entry (snd (GetOrDial env_ok ctx0 ''10.0.0.3:7946'' pool_failed))"
    using f2 e2 by blast
  have g4: "lookupConn (snd (GetOrDial env_unresolvable ctx0 ''10.0.0.3:7946'' pool_failed))
        ''10.0.0.3:7946'' = Some None"
    using f3 e3 by blast
  show ?thesis
    using t [of "''10.0.0.2:7946''" env_ok 9 ctx0] a a' e g1 g2 g3 g4 r a2 b2
      no_empty_entry_pool1 wf_pool1(1)
    by simp
qed

section \<open>DialAddressTimeout\<close>

text \<open>
  The dials \<^verbatim>\<open>GetOrDial\<close> makes, and what \<^verbatim>\<open>DialAddressTimeout\<close> changes.
\<close>

lemma GetConnection_dialLog: "dialLog (snd (GetConnection addr s)) = dialLog s"
  by (simp add: GetConnection_def split: option.splits)

lemma dial_dialLog:
  "dialLog (snd (dial ev cx udp s)) =
     dialLog s @ [\<lparr>dial_ctx = cx, dial_addr = udp, dial_serverName = udp_ip udp\<rparr>]"
  by (simp add: dial_def Let_def split: prod.splits)

lemma GetOrDial_dialLog:
  "dialLog (snd (GetOrDial ev cx addr s)) = dialLog s
   \<or> (\<exists>udp. dialLog (snd (GetOrDial ev cx addr s)) =
        dialLog s @ [\<lparr>dial_ctx = cx, dial_addr = udp, dial_serverName = udp_ip udp\<rparr>])"
proof (cases "GetConnection addr s")
  case (Pair r s1)
  have l1: "dialLog s1 = dialLog s" using GetConnection_dialLog [of addr s] Pair by simp
  show ?thesis
  proof (cases r)
    case (Some c0)
    then show ?thesis using Pair l1 by (simp add: GetOrDial_def)
  next
    case None
    note g = Pair [unfolded None]
    define s3 where
      "s3 = (snd (newPoolEntry s1))\<lparr>entries := AList.update addr (nextEntry s1) (entries s1)\<rparr>"
    have l3: "dialLog s3 = dialLog s" by (simp add: s3_def newPoolEntry_def l1)
    show ?thesis
    proof (cases "resolveUDPAddr ev addr")
      case (Inl e0)
      then show ?thesis
        using l3 by (simp add: GetOrDial_miss [OF g] Let_def s3_def [symmetric])
    next
      case (Inr udp)
      obtain r4 s4 where d: "dial ev cx udp s3 = (r4, s4)" by (cases "dial ev cx udp s3") auto
      have l4: "dialLog s4 =
          dialLog s @ [\<lparr>dial_ctx = cx, dial_addr = udp, dial_serverName = udp_ip udp\<rparr>]"
        using dial_dialLog [of ev cx udp s3] d l3 by simp
      have "dialLog (snd (GetOrDial ev cx addr s)) = dialLog s4"
        using Inr d unfolding GetOrDial_miss [OF g] Let_def s3_def [symmetric]
        by (cases r4) (simp_all add: onNewConn_fields setConn_def)
      then show ?thesis using l4 by auto
    qed
  qed
qed

lemma DialAddressTimeout_fst:
  "fst (DialAddressTimeout ev addr timeout t) = fst (DialAddressTimeout ev addr 0 t)"
  by (simp add: DialAddressTimeout_def Let_def split: prod.splits sum.splits)

lemma DialAddressTimeout_snd:
  "snd (DialAddressTimeout ev addr timeout t) =
     (snd (DialAddressTimeout ev addr 0 t))
       \<lparr>streamDeadline := streamDeadline (snd (DialAddressTimeout ev addr timeout t))\<rparr>"
  by (simp add: DialAddressTimeout_def Let_def SetDeadline_def split: prod.splits sum.splits)

lemma DialAddressTimeout_pool:
  "pool (snd (DialAddressTimeout ev addr timeout t)) =
     snd (GetOrDial ev (dialContext t) addr (pool t))"
  by (simp add: DialAddressTimeout_def Let_def SetDeadline_def split: prod.splits sum.splits)

lemma stream_deadline_after_dial:
  assumes "DialAddressTimeout ev addr timeout t = (Inr sc, t')"
  shows "(0 < timeout \<longrightarrow>
           streamDeadline t' = (streamDeadline t)(stream sc \<mapsto> clock (pool t') + timeout))
       \<and> (\<not> 0 < timeout \<longrightarrow> streamDeadline t' = streamDeadline t)"
  using assms
  by (auto simp: DialAddressTimeout_def Let_def SetDeadline_def
      split: prod.splits sum.splits if_splits)

lemma stream_deadline_after_error:
  assumes "DialAddressTimeout ev addr timeout t = (Inl err, t')"
  shows "streamDeadline t' = streamDeadline t"
  using assms
  by (auto simp: DialAddressTimeout_def Let_def SetDeadline_def
      split: prod.splits sum.splits if_splits)

lemma GetOrDial_pool0:
  "fst (GetOrDial env_ok cx ''10.0.0.2:7946'' pool0) = Inr 0"
  "clock (snd (GetOrDial env_ok cx ''10.0.0.2:7946'' pool0)) = 0"
  by (simp_all add: GetOrDial_def GetConnection_def eval_defs)

lemma env_ok_simps:
  "connOpenStream env_ok c = Inr 0" "connLocalAddr env_ok c = ''10.0.0.1:7946''"
  "connRemoteAddr env_ok c = ''10.0.0.2:7946''"
  by (simp_all add: env_ok_def)

lemma DialAddressTimeout_transport0:
  "fst (DialAddressTimeout env_ok ''10.0.0.2:7946'' timeout transport0) =
       Inr \<lparr>stream = 0, localAddr = ''10.0.0.1:7946'', remoteAddr = ''10.0.0.2:7946''\<rparr>"
  "clock (pool (snd (DialAddressTimeout env_ok ''10.0.0.2:7946'' timeout transport0))) = 0"
  "streamDeadline transport0 = (\<lambda>st. None)"
proof -
  obtain s' where g: "GetOrDial env_ok (dialContext transport0) ''10.0.0.2:7946'' pool0 = (Inr 0, s')"
    using GetOrDial_pool0(1) [of "dialContext transport0"] by (metis prod.collapse)
  have c: "clock s' = 0" using GetOrDial_pool0(2) [of "dialContext transport0"] g by simp
  have p: "pool transport0 = pool0" by (simp add: transport0_def)
  show "fst (DialAddressTimeout env_ok ''10.0.0.2:7946'' timeout transport0) =
       Inr \<lparr>stream = 0, localAddr = ''10.0.0.1:7946'', remoteAddr = ''10.0.0.2:7946''\<rparr>"
    by (simp add: DialAddressTimeout_def p g Let_def env_ok_simps)
  show "clock (pool (snd (DialAddressTimeout env_ok ''10.0.0.2:7946'' timeout transport0))) = 0"
    by (simp add: DialAddressTimeout_def p g Let_def env_ok_simps SetDeadline_def c)
  show "streamDeadline transport0 = (\<lambda>st. None)" by (simp add: transport0_def)
qed

lemma DialAddressTimeout_unresolvable:
  "fst (DialAddressTimeout env_unresolvable ''10.0.0.2:7946'' timeout transport0) =
     Inl (Err ''no such host'')"
proof -
  have "fst (GetOrDial env_unresolvable (dialContext transport0) ''10.0.0.2:7946'' pool0) =
        Inl (Err ''no such host'')"
    by (simp add: GetOrDial_def GetConnection_def env_unresolvable_def eval_defs)
  then obtain s' where g: "GetOrDial env_unresolvable (dialContext transport0) ''10.0.0.2:7946'' pool0
      = (Inl (Err ''no such host''), s')"
    by (metis prod.collapse)
  have p: "pool transport0 = pool0" by (simp add: transport0_def)
  show ?thesis by (simp add: DialAddressTimeout_def p g)
qed

lemma DialAddressTimeout_dialLog0:
  "dialLog (pool (snd (DialAddressTimeout env_ok ''10.0.0.2:7946'' timeout transport0))) =
     [\<lparr>dial_ctx = \<lparr>ctx_deadline = None, ctx_done = False\<rparr>,
       dial_addr = \<lparr>udp_ip = ''10.0.0.2'', udp_port = 7946\<rparr>,
       dial_serverName = ''10.0.0.2''\<rparr>]"
proof -
  have p: "pool transport0 = pool0" "dialContext transport0 = \<lparr>ctx_deadline = None, ctx_done = False\<rparr>"
    by (simp_all add: transport0_def dialContext_def)
  show ?thesis
    unfolding DialAddressTimeout_pool p
    by (simp add: GetOrDial_def GetConnection_def eval_defs)
qed

text \<open>
  Claim C9 says that the deadline is set if and only if the timeout is nonzero.
  \<^verbatim>\<open>DialAddressTimeout\<close> tests \<^verbatim>\<open>timeout > 0\<close>: with a timeout of \<open>- 5\<close> nanoseconds the
  stream is returned with no deadline.
\<close>

theorem DialAddressTimeout_negative_timeout:
  "(- 5 :: int) \<noteq> 0
   \<and> fst (DialAddressTimeout env_ok ''10.0.0.2:7946'' (- 5) transport0) =
       Inr \<lparr>stream = 0, localAddr = ''10.0.0.1:7946'', remoteAddr = ''10.0.0.2:7946''\<rparr>
   \<and> streamDeadline (snd (DialAddressTimeout env_ok ''10.0.0.2:7946'' (- 5) transport0)) 0 = None"
proof -
  obtain s' where g: "GetOrDial env_ok (dialContext transport0) ''10.0.0.2:7946'' pool0 = (Inr 0, s')"
    using GetOrDial_pool0(1) [of "dialContext transport0"] by (metis prod.collapse)
  have p: "pool transport0 = pool0" by (simp add: transport0_def)
  have "streamDeadline (snd (DialAddressTimeout env_ok ''10.0.0.2:7946'' (- 5) transport0)) 0 = None"
    by (simp add: DialAddressTimeout_def p g Let_def env_ok_simps DialAddressTimeout_transport0(3))
  then show ?thesis by (simp add: DialAddressTimeout_transport0(1))
qed

text \<open>
  Claim C9, amended. \<^verbatim>\<open>DialAddressTimeout\<close> sets the deadline of the returned stream to
  the time after the dial plus the timeout if and only if the timeout is positive, and
  sets no deadline otherwise or when it returns an error. The timeout changes nothing
  else: the result and the final state are those of a call with timeout 0, but for the
  stream deadlines; and every dial the call makes is given a context with no deadline.
\<close>

theorem DialAddressTimeout_deadline:
  "(\<forall>sc t'. DialAddressTimeout ev addr timeout t = (Inr sc, t') \<longrightarrow>
      (0 < timeout \<longrightarrow>
         streamDeadline t' = (streamDeadline t)(stream sc \<mapsto> clock (pool t') + timeout))
      \<and> (\<not> 0 < timeout \<longrightarrow> streamDeadline t' = streamDeadline t))
   \<and> (\<forall>err t'. DialAddressTimeout ev addr timeout t = (Inl err, t') \<longrightarrow>
        streamDeadline t' = streamDeadline t)
   \<and> fst (DialAddressTimeout ev addr timeout t) = fst (DialAddressTimeout ev addr 0 t)
   \<and> snd (DialAddressTimeout ev addr timeout t) =
       (snd (DialAddressTimeout ev addr 0 t))
         \<lparr>streamDeadline := streamDeadline (snd (DialAddressTimeout ev addr timeout t))\<rparr>
   \<and> (\<forall>call \<in> set (dialLog (pool (snd (DialAddressTimeout ev addr timeout t)))).
        call \<in> set (dialLog (pool t)) \<or> ctx_deadline (dial_ctx call) = None)"
proof -
  have "\<forall>call \<in> set (dialLog (pool (snd (DialAddressTimeout ev addr timeout t)))).
        call \<in> set (dialLog (pool t)) \<or> ctx_deadline (dial_ctx call) = None"
    unfolding DialAddressTimeout_pool
    using GetOrDial_dialLog [of ev "dialContext t" addr "pool t"]
    by (auto simp: dialContext_def)
  then show ?thesis
    using stream_deadline_after_dial [of ev addr timeout t]
      stream_deadline_after_error [of ev addr timeout t]
      DialAddressTimeout_fst [of ev addr timeout t]
      DialAddressTimeout_snd [of ev addr timeout t]
    by blast
qed

theorem DialAddressTimeout_deadline_witness:
  "fst (DialAddressTimeout env_ok ''10.0.0.2:7946'' 30 transport0) =
       Inr \<lparr>stream = 0, localAddr = ''10.0.0.1:7946'', remoteAddr = ''10.0.0.2:7946''\<rparr>
   \<and> streamDeadline (snd (DialAddressTimeout env_ok ''10.0.0.2:7946'' 30 transport0)) 0 = Some 30
   \<and> fst (DialAddressTimeout env_ok ''10.0.0.2:7946'' 30 transport0) =
       fst (DialAddressTimeout env_ok ''10.0.0.2:7946'' 0 transport0)
   \<and> streamDeadline (snd (DialAddressTimeout env_ok ''10.0.0.2:7946'' 0 transport0)) 0 = None
   \<and> map (\<lambda>call. ctx_deadline (dial_ctx call))
        (dialLog (pool (snd (DialAddressTimeout env_ok ''10.0.0.2:7946'' 30 transport0)))) = [None]
   \<and> fst (DialAddressTimeout env_unresolvable ''10.0.0.2:7946'' 30 transport0) =
       Inl (Err ''no such host'')
   \<and> streamDeadline (snd (DialAddressTimeout env_unresolvable ''10.0.0.2:7946'' 30 transport0)) 0
       = None"
proof -
  let ?r = "DialAddressTimeout env_ok ''10.0.0.2:7946'' 30 transport0"
  let ?z = "DialAddressTimeout env_ok ''10.0.0.2:7946'' 0 transport0"
  let ?u = "DialAddressTimeout env_unresolvable ''10.0.0.2:7946'' 30 transport0"
  let ?sc = "\<lparr>stream = 0, localAddr = ''10.0.0.1:7946'', remoteAddr = ''10.0.0.2:7946''\<rparr>"
  note t = DialAddressTimeout_deadline [of env_ok "''10.0.0.2:7946''" 30 transport0]
  note tz = DialAddressTimeout_deadline [of env_ok "''10.0.0.2:7946''" 0 transport0]
  note tu = DialAddressTimeout_deadline [of env_unresolvable "''10.0.0.2:7946''" 30 transport0]
  have f: "fst ?r = Inr ?sc" by (rule DialAddressTimeout_transport0(1))
  have e: "?r = (Inr ?sc, snd ?r)" using f by (metis prod.collapse)
  have "streamDeadline (snd ?r) = (streamDeadline transport0)(stream ?sc \<mapsto> clock (pool (snd ?r)) + 30)"
    using t [THEN conjunct1, rule_format, OF e] by simp
  then have d: "streamDeadline (snd ?r) 0 = Some 30"
    by (simp add: DialAddressTimeout_transport0(2))
  have i: "fst ?r = fst ?z" using t by blast
  have ez: "?z = (Inr ?sc, snd ?z)"
    using DialAddressTimeout_transport0(1) [of 0] by (metis prod.collapse)
  have "streamDeadline (snd ?z) = streamDeadline transport0"
    using tz [THEN conjunct1, rule_format, OF ez] by simp
  then have z: "streamDeadline (snd ?z) 0 = None"
    by (simp add: DialAddressTimeout_transport0(3))
  have l: "map (\<lambda>call. ctx_deadline (dial_ctx call)) (dialLog (pool (snd ?r))) = [None]"
    by (simp add: DialAddressTimeout_dialLog0)
  have fu: "fst ?u = Inl (Err ''no such host'')" by (rule DialAddressTimeout_unresolvable)
  have eu: "?u = (Inl (Err ''no such host''), snd ?u)" using fu by (metis prod.collapse)
  have "streamDeadline (snd ?u) = streamDeadline transport0"
    using tu [THEN conjunct2, THEN conjunct1, rule_format, OF eu] by simp
  then have u: "streamDeadline (snd ?u) 0 = None"
    by (simp add: DialAddressTimeout_transport0(3))
  show ?thesis using f d i z l fu u by simp
qed

section \<open>Concurrent callers of GetOrDial\<close>

text \<open>
  Locking and unlocking a free mutex changes nothing; a single goroutine steps
  deterministically.
\<close>

lemma unlocked_entry: "\<not> mu en \<Longrightarrow> en\<lparr>mu := False\<rparr> = en"
  by (cases en) simp

lemma Unlock_Lock: "\<not> mu (heap s e) \<Longrightarrow> Unlock e (Lock e s) = s"
  by (simp add: Unlock_def Lock_def unlocked_entry)

lemma step_single:
  "step ev cx addr 0 \<lparr>shared = s, threads = [p]\<rparr> =
     map_option (\<lambda>(p', s'). \<lparr>shared = s', threads = [p']\<rparr>) (step_thread ev cx addr p s)"
  by (simp add: step_def split: option.splits)

lemma run_alone_hit:
  assumes "map_of (entries s) addr = Some e" "\<not> mu (heap s e)"
      and "getAliveConn s (heap s e) = Some c"
  shows "run ev cx addr [0, 0, 0] \<lparr>shared = s, threads = [GC_Load]\<rparr> =
           Some \<lparr>shared = snd (GetOrDial ev cx addr s),
                 threads = [Returned (fst (GetOrDial ev cx addr s))]\<rparr>"
proof -
  have g: "getAliveConn (Lock e s) (heap (Lock e s) e) = Some c"
    using assms(3) by (simp add: getAliveConn_Some_iff Lock_def)
  show ?thesis
    using assms g
    by (simp add: step_single GetOrDial_def GetConnection_def Unlock_Lock)
qed

lemma run_alone_from_LoadOrStore:
  assumes "map_of (entries s) addr = None"
  shows "\<exists>sched. run ev cx addr sched \<lparr>shared = s, threads = [GD_LoadOrStore]\<rparr> =
           Some \<lparr>shared = snd (GetOrDial ev cx addr s),
                 threads = [Returned (fst (GetOrDial ev cx addr s))]\<rparr>"
proof -
  have g: "GetConnection addr s = (None, s)" using assms by (simp add: GetConnection_def)
  define s3 where
      "s3 = (snd (newPoolEntry s))\<lparr>entries := AList.update addr (nextEntry s) (entries s)\<rparr>"
  have f: "\<not> mu (heap s3 (nextEntry s))" "conn (heap s3 (nextEntry s)) = None"
    by (simp_all add: s3_def newPoolEntry_def)
  have r2: "run ev cx addr (0 # 0 # 0 # sched) \<lparr>shared = s, threads = [GD_LoadOrStore]\<rparr> =
            run ev cx addr sched \<lparr>shared = Lock (nextEntry s) s3, threads = [GD_Resolve (nextEntry s)]\<rparr>"
    for sched
    using assms f
    by (simp add: step_single s3_def newPoolEntry_def LoadOrStore_def Let_def
        getAliveConn_def Lock_def)
  show ?thesis
  proof (cases "resolveUDPAddr ev addr")
    case (Inl err)
    have "run ev cx addr [0, 0, 0, 0] \<lparr>shared = s, threads = [GD_LoadOrStore]\<rparr> =
           Some \<lparr>shared = snd (GetOrDial ev cx addr s),
                 threads = [Returned (fst (GetOrDial ev cx addr s))]\<rparr>"
      unfolding r2 using Inl f
      by (simp add: step_single GetOrDial_miss [OF g] Let_def s3_def [symmetric] Unlock_Lock)
    then show ?thesis by blast
  next
    case (Inr udp)
    obtain r4 s4 where d: "dial ev cx udp s3 = (r4, s4)" by (cases "dial ev cx udp s3") auto
    have dl: "dial ev cx udp (Lock (nextEntry s) s3) = (r4, Lock (nextEntry s) s4)"
      using d by (auto simp: dial_def Let_def Lock_def split: prod.splits)
    have f4: "\<not> mu (heap s4 (nextEntry s))" using dial_fields [OF d] f by simp
    have "run ev cx addr [0, 0, 0, 0, 0] \<lparr>shared = s, threads = [GD_LoadOrStore]\<rparr> =
           Some \<lparr>shared = snd (GetOrDial ev cx addr s),
                 threads = [Returned (fst (GetOrDial ev cx addr s))]\<rparr>"
    proof (cases r4)
      case (Inl err)
      show ?thesis
        unfolding r2 using Inr d dl Inl f4
        by (simp add: step_single GetOrDial_miss [OF g] Let_def s3_def [symmetric] Unlock_Lock)
    next
      case (Inr c)
      have u: "Unlock (nextEntry s) (onNewConn c (setConn (nextEntry s) c (Lock (nextEntry s) s4)))
               = onNewConn c (setConn (nextEntry s) c s4)"
        using f4 by (simp add: Unlock_def Lock_def onNewConn_def setConn_def unlocked_entry)
      show ?thesis
        unfolding r2 using \<open>resolveUDPAddr ev addr = Inr udp\<close> d dl Inr u
        by (simp add: step_single GetOrDial_miss [OF g] Let_def s3_def [symmetric])
    qed
    then show ?thesis by blast
  qed
qed

text \<open>
  The step model and the sequential model agree: a goroutine running alone on a pool
  whose mutexes are free returns what the sequential \<^verbatim>\<open>GetOrDial\<close> returns and leaves the
  same state.
\<close>

lemma run_alone_GetOrDial:
  assumes "\<forall>e. \<not> mu (heap s e)"
  shows "\<exists>sched. run ev cx addr sched (callers 1 s) =
           Some \<lparr>shared = snd (GetOrDial ev cx addr s),
                 threads = [Returned (fst (GetOrDial ev cx addr s))]\<rparr>"
proof (cases "map_of (entries s) addr")
  case None
  obtain sched where
    "run ev cx addr sched \<lparr>shared = s, threads = [GD_LoadOrStore]\<rparr> =
           Some \<lparr>shared = snd (GetOrDial ev cx addr s),
                 threads = [Returned (fst (GetOrDial ev cx addr s))]\<rparr>"
    using run_alone_from_LoadOrStore [OF None] by blast
  then have "run ev cx addr (0 # sched) (callers 1 s) =
           Some \<lparr>shared = snd (GetOrDial ev cx addr s),
                 threads = [Returned (fst (GetOrDial ev cx addr s))]\<rparr>"
    using None by (simp add: callers_def step_single)
  then show ?thesis by blast
next
  case (Some e)
  have free: "\<not> mu (heap s e)" using assms by simp
  show ?thesis
  proof (cases "getAliveConn s (heap s e)")
    case (Some c)
    have "run ev cx addr [0, 0, 0] (callers 1 s) =
           Some \<lparr>shared = snd (GetOrDial ev cx addr s),
                 threads = [Returned (fst (GetOrDial ev cx addr s))]\<rparr>"
      using run_alone_hit [OF \<open>map_of (entries s) addr = Some e\<close> free Some]
      by (simp add: callers_def)
    then show ?thesis by blast
  next
    case None
    define s1 where "s1 = s\<lparr>entries := AList.delete addr (entries s)\<rparr>"
    have g: "GetConnection addr s = (None, s1)"
      using \<open>map_of (entries s) addr = Some e\<close> None by (simp add: GetConnection_def s1_def)
    have m1: "map_of (entries s1) addr = None" by (simp add: s1_def delete_conv')
    have g1: "GetConnection addr s1 = (None, s1)" using m1 by (simp add: GetConnection_def)
    have same: "GetOrDial ev cx addr s = GetOrDial ev cx addr s1"
      by (simp add: GetOrDial_miss [OF g] GetOrDial_miss [OF g1])
    have n: "getAliveConn (Lock e s) (heap (Lock e s) e) = None"
      using None by (simp add: getAliveConn_None_iff Lock_def)
    have pre: "run ev cx addr ([0, 0, 0, 0] @ sched) (callers 1 s) =
               run ev cx addr sched \<lparr>shared = s1, threads = [GD_LoadOrStore]\<rparr>" for sched
      using \<open>map_of (entries s) addr = Some e\<close> free n
      by (simp add: callers_def step_single Unlock_Lock s1_def)
    obtain sched where
      "run ev cx addr sched \<lparr>shared = s1, threads = [GD_LoadOrStore]\<rparr> =
           Some \<lparr>shared = snd (GetOrDial ev cx addr s1),
                 threads = [Returned (fst (GetOrDial ev cx addr s1))]\<rparr>"
      using run_alone_from_LoadOrStore [OF m1] by blast
    then have "run ev cx addr ([0, 0, 0, 0] @ sched) (callers 1 s) =
           Some \<lparr>shared = snd (GetOrDial ev cx addr s),
                 threads = [Returned (fst (GetOrDial ev cx addr s))]\<rparr>"
      unfolding pre same by simp
    then show ?thesis by blast
  qed
qed

text \<open>
  Two callers one after the other dial once and share the connection; a caller that
  reaches \<^verbatim>\<open>entry.mu.Lock()\<close> while another holds the mutex cannot move.
\<close>

lemma sequential_callers_dial_once:
  "map_option threads (run env_ok ctx0 ''10.0.0.2:7946'' sequential_schedule (callers 2 pool0)) =
     Some [Returned (Inr 0), Returned (Inr 0)]
   \<and> map_option (\<lambda>cs. length (dialLog (shared cs)))
        (run env_ok ctx0 ''10.0.0.2:7946'' sequential_schedule (callers 2 pool0)) = Some 1"
  by (simp add: eval_defs sequential_schedule_def numeral_2_eq_2)

lemma blocked_on_held_mutex:
  "run env_ok ctx0 ''10.0.0.2:7946'' [0, 0, 0, 1, 1] (callers 2 pool0) = None"
  by (simp add: eval_defs numeral_2_eq_2)

text \<open>
  Claim C1 says that concurrent callers of \<^verbatim>\<open>GetOrDial\<close> for one address cause at most
  one dial and return one connection. Under \<open>race_schedule\<close>, caller 0 stores its
  new entry; before caller 0 locks it, caller 1 finds the entry without a connection in
  \<^verbatim>\<open>GetConnection\<close>, deletes it from the map, stores an entry of its own and dials;
  caller 0 then locks the entry it still points to and dials too. Both calls return:
  there are two dials, the callers hold different connections, the new-connection hook
  ran for both, and the pool holds only the connection of caller 1.
\<close>

theorem GetOrDial_race_dials_twice:
  "map_option threads (run env_ok ctx0 ''10.0.0.2:7946'' race_schedule (callers 2 pool0)) =
     Some [Returned (Inr 1), Returned (Inr 0)]
   \<and> map_option (\<lambda>cs. length (dialLog (shared cs)))
        (run env_ok ctx0 ''10.0.0.2:7946'' race_schedule (callers 2 pool0)) = Some 2
   \<and> map_option (\<lambda>cs. handlerLog (shared cs))
        (run env_ok ctx0 ''10.0.0.2:7946'' race_schedule (callers 2 pool0)) = Some [0, 1]
   \<and> map_option (\<lambda>cs. lookupConn (shared cs) ''10.0.0.2:7946'')
        (run env_ok ctx0 ''10.0.0.2:7946'' race_schedule (callers 2 pool0)) = Some (Some (Some 0))"
  by (simp add: eval_defs numeral_2_eq_2 lookupConn_def)

end
